theory Spec2Isabelle
  imports Complex_Main "HOL-Library.Log_Nat"
begin

section \<open>Bike rental registry (src/app.ts)\<close>

text \<open>
  The class \<open>App\<close> of src/app.ts keeps three arrays (\<open>users\<close>, \<open>bikes\<close>, \<open>rents\<close>) of
  JavaScript objects. Users and bikes are created by the caller and handed over by
  reference; \<open>registerUser\<close>, \<open>registerBike\<close>, \<open>rentBike\<close>, \<open>returnBike\<close> and \<open>moveBikeTo\<close>
  mutate those objects in place, and a \<open>Rent\<close> keeps references to its bike and its user.
  The embedding therefore has an explicit store: a reference is a natural number, and the
  state carries one store of user objects and one of bike objects. Every reference
  denotes an object (the caller may have built any object before it calls), so the
  stores are total functions.

  Every operation returns its result together with the state it leaves behind, also when
  it throws: that an operation changes nothing when it fails is a theorem, not a
  convention of the model.

  A JavaScript number is an IEEE 754 binary64 value; the type \<open>number\<close> below has
  those values, and subtraction, multiplication and division round to nearest, ties to
  even, as the language defines them. A \<open>Date\<close> is its time value, an integer number
  of milliseconds, and \<open>getTime()\<close> is that integer as a number. The calls the
  source makes to its environment are parameters of the operation that makes them:
  \<open>crypto.randomUUID()\<close> is the argument \<open>newId\<close>, \<open>new Date()\<close> is the argument \<open>now\<close>,
  \<open>Crypt.encrypt\<close> and \<open>Crypt.compare\<close> are function arguments. The operations are
  modelled as run one after the other (each \<open>await\<close> completes before the next call).
\<close>

subsection \<open>Numbers\<close>

text \<open>
  \<open>Finite s m e\<close> is the value \<open>m * 2 ^ e\<close>, negative when \<open>s\<close> holds. The values of
  binary64 are the subnormal ones and the two zeros (\<open>m < 2 ^ 52\<close> and \<open>e = - 1074\<close>), the
  normal ones (\<open>2 ^ 52 \<le> m < 2 ^ 53\<close> and \<open>- 1074 \<le> e \<le> 971\<close>), the two infinities and
  NaN.
\<close>

datatype number = Finite bool int int | Infinity bool | NaN

fun wellFormed :: "number \<Rightarrow> bool" where
  "wellFormed (Finite s m e) \<longleftrightarrow>
     (0 \<le> m \<and> m < 2 ^ 52 \<and> e = - 1074) \<or>
     (2 ^ 52 \<le> m \<and> m < 2 ^ 53 \<and> - 1074 \<le> e \<and> e \<le> 971)"
| "wellFormed (Infinity s) \<longleftrightarrow> True"
| "wellFormed NaN \<longleftrightarrow> True"

text \<open>The real number that a finite value stands for.\<close>

definition valueOf :: "bool \<Rightarrow> int \<Rightarrow> int \<Rightarrow> real" where
  "valueOf s m e =
     (if s then - 1 else 1) * real_of_int m *
     (if 0 \<le> e then 2 ^ nat e else 1 / 2 ^ nat (- e))"

text \<open>The integer nearest to \<open>a / b\<close> for positive \<open>b\<close>, the even one of two equally near.\<close>

definition roundHalfEven :: "int \<Rightarrow> int \<Rightarrow> int" where
  "roundHalfEven a b =
     (let q = a div b; r = a mod b
      in if 2 * r < b then q else if b < 2 * r then q + 1 else if even q then q else q + 1)"

text \<open>The integer \<open>k\<close> with \<open>2 ^ k \<le> num / den < 2 ^ (k + 1)\<close>, for positive \<open>num\<close> and \<open>den\<close>.\<close>

definition floorLog2 :: "int \<Rightarrow> int \<Rightarrow> int" where
  "floorLog2 num den =
     (let d = bitlen num - bitlen den
      in if (if 0 \<le> d then den * 2 ^ nat d \<le> num else den \<le> num * 2 ^ nat (- d))
         then d else d - 1)"

text \<open>
  The binary64 value nearest to the positive rational \<open>num / den * 2 ^ e\<close>, with sign
  \<open>s\<close>: the unit in the last place is \<open>2 ^ u\<close>, 52 binary places below the leading bit
  and never below \<open>2 ^ - 1074\<close>; the significand is rounded to an integer number of
  units; a significand that rounds up to \<open>2 ^ 53\<close> moves to the next exponent; a value
  beyond the largest exponent is an infinity.
\<close>

definition roundPos :: "bool \<Rightarrow> int \<Rightarrow> int \<Rightarrow> int \<Rightarrow> number" where
  "roundPos s num den e =
     (let u = max (floorLog2 num den + e) (- 1022) - 52;
          n = (if u \<le> e then roundHalfEven (num * 2 ^ nat (e - u)) den
               else roundHalfEven num (den * 2 ^ nat (u - e)));
          u' = (if n = 2 ^ 53 then u + 1 else u);
          n' = (if n = 2 ^ 53 then 2 ^ 52 else n)
      in if 971 < u' then Infinity s else Finite s n' u')"

definition signedZero :: "bool \<Rightarrow> number" where
  "signedZero s = Finite s 0 (- 1074)"

text \<open>The number that an integer literal or a time value denotes.\<close>

definition numOfInt :: "int \<Rightarrow> number" where
  "numOfInt i = (if i = 0 then signedZero False else roundPos (i < 0) \<bar>i\<bar> 1 0)"

text \<open>
  The operators \<open>-\<close>, \<open>*\<close> and \<open>/\<close> on numbers and \<open>Math.abs\<close>. NaN is contagious;
  the difference of equal infinities, zero times an infinity, and the quotient of two
  zeros or of two infinities are NaN; an exact zero difference is \<open>+0\<close> unless it is
  \<open>-0 - +0\<close>; the sign of a product or quotient is the exclusive or of the signs.
\<close>

fun numSub :: "number \<Rightarrow> number \<Rightarrow> number" where
  "numSub NaN y = NaN"
| "numSub x NaN = NaN"
| "numSub (Infinity s) (Infinity t) = (if s = t then NaN else Infinity s)"
| "numSub (Infinity s) (Finite t m e) = Infinity s"
| "numSub (Finite s m e) (Infinity t) = Infinity (\<not> t)"
| "numSub (Finite s1 m1 e1) (Finite s2 m2 e2) =
     (let c = min e1 e2;
          a = (if s1 then - m1 else m1) * 2 ^ nat (e1 - c);
          b = (if s2 then - m2 else m2) * 2 ^ nat (e2 - c);
          d = a - b
      in if d = 0 then signedZero (m1 = 0 \<and> m2 = 0 \<and> s1 \<and> \<not> s2)
         else roundPos (d < 0) \<bar>d\<bar> 1 c)"

fun numMul :: "number \<Rightarrow> number \<Rightarrow> number" where
  "numMul NaN y = NaN"
| "numMul x NaN = NaN"
| "numMul (Infinity s) (Infinity t) = Infinity (s \<noteq> t)"
| "numMul (Infinity s) (Finite t m e) = (if m = 0 then NaN else Infinity (s \<noteq> t))"
| "numMul (Finite s m e) (Infinity t) = (if m = 0 then NaN else Infinity (s \<noteq> t))"
| "numMul (Finite s1 m1 e1) (Finite s2 m2 e2) =
     (if m1 = 0 \<or> m2 = 0 then signedZero (s1 \<noteq> s2)
      else roundPos (s1 \<noteq> s2) (m1 * m2) 1 (e1 + e2))"

fun numDiv :: "number \<Rightarrow> number \<Rightarrow> number" where
  "numDiv NaN y = NaN"
| "numDiv x NaN = NaN"
| "numDiv (Infinity s) (Infinity t) = NaN"
| "numDiv (Infinity s) (Finite t m e) = Infinity (s \<noteq> t)"
| "numDiv (Finite s m e) (Infinity t) = signedZero (s \<noteq> t)"
| "numDiv (Finite s1 m1 e1) (Finite s2 m2 e2) =
     (if m2 = 0 then (if m1 = 0 then NaN else Infinity (s1 \<noteq> s2))
      else if m1 = 0 then signedZero (s1 \<noteq> s2)
      else roundPos (s1 \<noteq> s2) m1 m2 (e1 - e2))"

fun mathAbs :: "number \<Rightarrow> number" where
  "mathAbs NaN = NaN"
| "mathAbs (Infinity s) = Infinity False"
| "mathAbs (Finite s m e) = Finite False m e"

text \<open>\<open>Date.prototype.getTime\<close>: the time value (an integer of at most \<open>8.64 * 10 ^ 15\<close>
  in absolute value, which binary64 holds exactly) as a number.\<close>

definition getTime :: "int \<Rightarrow> number" where
  "getTime t = numOfInt t"

subsection \<open>Data\<close>

type_synonym ref = nat

text \<open>
  The errors of src/app.ts, named as in the error table of the specification:
  \<open>'User not found.'\<close> is \<open>UserNotFound\<close>, \<open>'Duplicate user.'\<close> is \<open>DuplicateUser\<close>,
  \<open>'User has open rents, cannot be removed.'\<close> is \<open>UserHasOpenRents\<close>,
  \<open>BikeNotFoundError\<close> is \<open>BikeNotFound\<close>, \<open>'Unavailable bike.'\<close> is \<open>UnavailableBike\<close>,
  \<open>RentNotFoundError\<close> is \<open>RentNotFound\<close> and \<open>'User does not exist.'\<close> is
  \<open>UserDoesNotExist\<close>.
\<close>

datatype error =
    UserNotFound
  | DuplicateUser
  | UserHasOpenRents
  | BikeNotFound
  | UnavailableBike
  | RentNotFound
  | UserDoesNotExist

text \<open>
  Modelled from the spec: the classes \<open>Location\<close>, \<open>User\<close>, \<open>Bike\<close> and \<open>Rent\<close> are
  imported by src/app.ts from files that are not part of the sources (location.ts,
  user.ts, bike.ts, rent.ts). The records below have the fields that src/app.ts reads or
  writes, with the types the data model of the specification gives them. The identifier
  of a user or bike is optional (absent until registration), the location is a value
  embedded in the bike, and \<open>new Rent(bike, user, date)\<close> builds an open rent (no end)
  that starts at \<open>date\<close>. Profile fields of a user that no operation touches are left out.
\<close>

record Location =
  latitude :: number
  longitude :: number

record User =
  user_id :: "string option"
  email :: string
  password :: string

record Bike =
  bike_id :: "string option"
  rate :: number
  available :: bool
  location :: Location

text \<open>
  A rent object is created by \<open>rentBike\<close> only and pushed once, so its position in
  \<open>rents\<close> identifies it; rents are kept by value and updated by position.
\<close>

record Rent =
  bike :: ref
  user :: ref
  start :: int
  end_date :: "int option"

text \<open>
  The state: the three arrays of \<open>App\<close>, the rent-lookup collaborator given to the
  constructor (\<open>RentRepo.findOpenRentsFor\<close>), and the two object stores.
\<close>

record App =
  users :: "ref list"
  bikes :: "ref list"
  rents :: "Rent list"
  rentRepo :: "string \<Rightarrow> Rent list"
  userObj :: "ref \<Rightarrow> User"
  bikeObj :: "ref \<Rightarrow> Bike"

subsection \<open>Array helpers\<close>

text \<open>\<open>Array.prototype.findIndex\<close>: the first position whose element satisfies the
  predicate; \<open>None\<close> stands for the result \<open>-1\<close>.\<close>

fun findIndex :: "('a \<Rightarrow> bool) \<Rightarrow> 'a list \<Rightarrow> nat option" where
  "findIndex P [] = None"
| "findIndex P (x # xs) = (if P x then Some 0 else map_option Suc (findIndex P xs))"

text \<open>\<open>xs.splice(i, 1)\<close> for a position \<open>i\<close> that is not negative.\<close>

definition splice1 :: "nat \<Rightarrow> 'a list \<Rightarrow> 'a list" where
  "splice1 i xs = take i xs @ drop (Suc i) xs"

subsection \<open>Operations\<close>

definition findUser :: "App \<Rightarrow> string \<Rightarrow> error + ref" where
  "findUser app e =
     (case find (\<lambda>u. email (userObj app u) = e) (users app) of
        None \<Rightarrow> Inl UserNotFound
      | Some u \<Rightarrow> Inr u)"

definition findBike :: "App \<Rightarrow> string \<Rightarrow> error + ref" where
  "findBike app bikeId =
     (case find (\<lambda>b. bike_id (bikeObj app b) = Some bikeId) (bikes app) of
        None \<Rightarrow> Inl BikeNotFound
      | Some b \<Rightarrow> Inr b)"

definition getBikeById :: "App \<Rightarrow> string \<Rightarrow> error + ref" where
  "getBikeById app bikeId = findBike app bikeId"

definition getUserByEmail :: "App \<Rightarrow> string \<Rightarrow> ref option" where
  "getUserByEmail app e = find (\<lambda>u. email (userObj app u) = e) (users app)"

definition listUsers :: "App \<Rightarrow> ref list" where
  "listUsers app = users app"

definition listBikes :: "App \<Rightarrow> ref list" where
  "listBikes app = bikes app"

definition listRents :: "App \<Rightarrow> Rent list" where
  "listRents app = rents app"

definition registerUser ::
  "App \<Rightarrow> ref \<Rightarrow> string \<Rightarrow> (string \<Rightarrow> string) \<Rightarrow> (error + string) \<times> App" where
  "registerUser app u newId encrypt =
     (if \<exists>rUser \<in> set (users app). email (userObj app rUser) = email (userObj app u)
      then (Inl DuplicateUser, app)
      else
        let app1 = app\<lparr>userObj := (userObj app)(u := (userObj app u)\<lparr>user_id := Some newId\<rparr>)\<rparr>;
            encryptedPassword = encrypt (password (userObj app1 u));
            app2 = app1\<lparr>userObj :=
                     (userObj app1)(u := (userObj app1 u)\<lparr>password := encryptedPassword\<rparr>)\<rparr>
        in (Inr newId, app2\<lparr>users := users app2 @ [u]\<rparr>))"

definition authenticate ::
  "App \<Rightarrow> string \<Rightarrow> string \<Rightarrow> (string \<Rightarrow> string \<Rightarrow> bool) \<Rightarrow> error + bool" where
  "authenticate app userEmail pw compare =
     (case findUser app userEmail of
        Inl e \<Rightarrow> Inl e
      | Inr u \<Rightarrow> Inr (compare pw (password (userObj app u))))"

definition registerBike :: "App \<Rightarrow> ref \<Rightarrow> string \<Rightarrow> string \<times> App" where
  "registerBike app b newId =
     (let app1 = app\<lparr>bikeObj := (bikeObj app)(b := (bikeObj app b)\<lparr>bike_id := Some newId\<rparr>)\<rparr>
      in (newId, app1\<lparr>bikes := bikes app1 @ [b]\<rparr>))"

definition removeUser :: "App \<Rightarrow> string \<Rightarrow> (error + unit) \<times> App" where
  "removeUser app e =
     (case findIndex (\<lambda>u. email (userObj app u) = e) (users app) of
        Some userIndex \<Rightarrow>
          (let openRents = rentRepo app e
           in if length openRents > 0
              then (Inl UserHasOpenRents, app)
              else (Inr (), app\<lparr>users := splice1 userIndex (users app)\<rparr>))
      | None \<Rightarrow> (Inl UserDoesNotExist, app))"

definition rentBike :: "App \<Rightarrow> string \<Rightarrow> string \<Rightarrow> int \<Rightarrow> (error + unit) \<times> App" where
  "rentBike app bikeId userEmail now =
     (case findBike app bikeId of
        Inl e \<Rightarrow> (Inl e, app)
      | Inr b \<Rightarrow>
          if \<not> available (bikeObj app b) then (Inl UnavailableBike, app)
          else
            (case findUser app userEmail of
               Inl e \<Rightarrow> (Inl e, app)
             | Inr u \<Rightarrow>
                 let app1 = app\<lparr>bikeObj := (bikeObj app)(b := (bikeObj app b)\<lparr>available := False\<rparr>)\<rparr>;
                     newRent = \<lparr>bike = b, user = u, start = now, end_date = None\<rparr>
                 in (Inr (), app1\<lparr>rents := rents app1 @ [newRent]\<rparr>)))"

definition diffHours :: "int \<Rightarrow> int \<Rightarrow> number" where
  "diffHours dt2 dt1 =
     (let diff = numDiv (numSub (getTime dt2) (getTime dt1)) (numOfInt 1000);
          diff = numDiv diff (numMul (numOfInt 60) (numOfInt 60))
      in mathAbs diff)"

text \<open>The predicate of the \<open>find\<close> in \<open>returnBike\<close>.\<close>

definition rentMatches :: "App \<Rightarrow> string \<Rightarrow> string \<Rightarrow> Rent \<Rightarrow> bool" where
  "rentMatches app bikeId userEmail rent \<longleftrightarrow>
     bike_id (bikeObj app (bike rent)) = Some bikeId \<and>
     email (userObj app (user rent)) = userEmail \<and>
     end_date rent = None"

definition returnBike :: "App \<Rightarrow> string \<Rightarrow> string \<Rightarrow> int \<Rightarrow> (error + number) \<times> App" where
  "returnBike app bikeId userEmail now =
     (case findIndex (rentMatches app bikeId userEmail) (rents app) of
        None \<Rightarrow> (Inl RentNotFound, app)
      | Some i \<Rightarrow>
          let rent = (rents app ! i)\<lparr>end_date := Some now\<rparr>;
              app1 = app\<lparr>rents := (rents app)[i := rent]\<rparr>;
              app2 = app1\<lparr>bikeObj :=
                       (bikeObj app1)(bike rent := (bikeObj app1 (bike rent))\<lparr>available := True\<rparr>)\<rparr>;
              hours = diffHours now (start rent)
          in (Inr (numMul hours (rate (bikeObj app2 (bike rent)))), app2))"

definition moveBikeTo :: "App \<Rightarrow> string \<Rightarrow> Location \<Rightarrow> (error + unit) \<times> App" where
  "moveBikeTo app bikeId loc =
     (case findBike app bikeId of
        Inl e \<Rightarrow> (Inl e, app)
      | Inr b \<Rightarrow>
          let app1 = app\<lparr>bikeObj := (bikeObj app)
                       (b := (bikeObj app b)\<lparr>location :=
                          (location (bikeObj app b))\<lparr>latitude := latitude loc\<rparr>\<rparr>)\<rparr>;
              app2 = app1\<lparr>bikeObj := (bikeObj app1)
                       (b := (bikeObj app1 b)\<lparr>location :=
                          (location (bikeObj app1 b))\<lparr>longitude := longitude loc\<rparr>\<rparr>)\<rparr>
          in (Inr (), app2))"

subsection \<open>Sequences of calls\<close>

text \<open>
  A call of one of the six operations that change the registry, with the values its
  environment supplies, and the state a call leaves behind (whether it returns or throws).
\<close>

datatype call =
    RegisterUser ref string "string \<Rightarrow> string"
  | RegisterBike ref string
  | RemoveUser string
  | RentBike string string int
  | ReturnBike string string int
  | MoveBikeTo string Location

fun exec :: "App \<Rightarrow> call \<Rightarrow> App" where
  "exec app (RegisterUser u newId encrypt) = snd (registerUser app u newId encrypt)"
| "exec app (RegisterBike b newId) = snd (registerBike app b newId)"
| "exec app (RemoveUser e) = snd (removeUser app e)"
| "exec app (RentBike bikeId userEmail now) = snd (rentBike app bikeId userEmail now)"
| "exec app (ReturnBike bikeId userEmail now) = snd (returnBike app bikeId userEmail now)"
| "exec app (MoveBikeTo bikeId loc) = snd (moveBikeTo app bikeId loc)"

text \<open>
  The states reachable from an empty registry (the three arrays empty, any objects in
  the stores, any collaborator) by calls that satisfy \<open>ok\<close> in the state they are made in.
\<close>

inductive reachable :: "(App \<Rightarrow> call \<Rightarrow> bool) \<Rightarrow> App \<Rightarrow> bool"
  for ok :: "App \<Rightarrow> call \<Rightarrow> bool" where
  empty: "users app = [] \<Longrightarrow> bikes app = [] \<Longrightarrow> rents app = [] \<Longrightarrow> reachable ok app"
| step: "reachable ok app \<Longrightarrow> ok app c \<Longrightarrow> reachable ok (exec app c)"

text \<open>No restriction on the calls.\<close>

definition anyCall :: "App \<Rightarrow> call \<Rightarrow> bool" where
  "anyCall app c = True"

text \<open>
  The contract of \<open>crypto.randomUUID()\<close>: the identifier given to a bike is not the
  identifier of a bike of the collection.
\<close>

fun freshIds :: "App \<Rightarrow> call \<Rightarrow> bool" where
  "freshIds app (RegisterBike b newId) =
     (\<forall>a\<in>set (bikes app). bike_id (bikeObj app a) \<noteq> Some newId)"
| "freshIds app c = True"

text \<open>
  A bike object handed to \<open>registerBike\<close> has its availability flag set, unless it is an
  object of the collection already.
\<close>

fun registersAvailable :: "App \<Rightarrow> call \<Rightarrow> bool" where
  "registersAvailable app (RegisterBike b newId) =
     (available (bikeObj app b) \<or> b \<in> set (bikes app))"
| "registersAvailable app c = True"

subsection \<open>State predicates\<close>

text \<open>Some rent of the collection references the bike object and has no end.\<close>

definition hasOpenRent :: "App \<Rightarrow> ref \<Rightarrow> bool" where
  "hasOpenRent app b \<longleftrightarrow> (\<exists>r\<in>set (rents app). bike r = b \<and> end_date r = None)"

definition availabilityCoupled :: "App \<Rightarrow> bool" where
  "availabilityCoupled app \<longleftrightarrow>
     (\<forall>b\<in>set (bikes app). \<not> available (bikeObj app b) \<longleftrightarrow> hasOpenRent app b)"

text \<open>The rents reference bikes of the collection, and no bike has two open rents.\<close>

definition rentsWellFormed :: "App \<Rightarrow> bool" where
  "rentsWellFormed app \<longleftrightarrow>
     (\<forall>r\<in>set (rents app). bike r \<in> set (bikes app)) \<and>
     (\<forall>i<length (rents app). \<forall>j<length (rents app).
        end_date (rents app ! i) = None \<and> end_date (rents app ! j) = None \<and>
        bike (rents app ! i) = bike (rents app ! j) \<longrightarrow> i = j)"

text \<open>The invariant that the operations keep when bikes are registered available.\<close>

definition rentalInvariant :: "App \<Rightarrow> bool" where
  "rentalInvariant app \<longleftrightarrow> availabilityCoupled app \<and> rentsWellFormed app"

text \<open>No two users of the collection share an email (the data model's invariant).\<close>

definition emailsUnique :: "App \<Rightarrow> bool" where
  "emailsUnique app \<longleftrightarrow> distinct (map (\<lambda>u. email (userObj app u)) (users app))"

text \<open>Every bike of the collection has an identifier, and no two bike objects share one.\<close>

definition bikeIdsUnique :: "App \<Rightarrow> bool" where
  "bikeIdsUnique app \<longleftrightarrow>
     (\<forall>a\<in>set (bikes app). bike_id (bikeObj app a) \<noteq> None) \<and>
     (\<forall>a\<in>set (bikes app). \<forall>b\<in>set (bikes app).
        bike_id (bikeObj app a) = bike_id (bikeObj app b) \<longrightarrow> a = b)"

subsection \<open>Concrete objects and states\<close>

text \<open>
  A store of user objects (object 0 is Ana, every other one Bob), a store of bike
  objects (rate 10, at the origin; object 1 is built with its availability flag off),
  and a registry with nothing registered whose collaborator reports no open rent, as
  \<open>FakeRentRepo\<close> does (its private array stays empty).
\<close>

definition demoUsers :: "ref \<Rightarrow> User" where
  "demoUsers r =
     \<lparr>user_id = None,
      email = (if r = 0 then ''ana@example.com'' else ''bob@example.com''),
      password = ''secret''\<rparr>"

definition demoBikes :: "ref \<Rightarrow> Bike" where
  "demoBikes r =
     \<lparr>bike_id = None, rate = numOfInt 10, available = (r \<noteq> 1),
      location = \<lparr>latitude = numOfInt 0, longitude = numOfInt 0\<rparr>\<rparr>"

definition emptyApp :: App where
  "emptyApp =
     \<lparr>users = [], bikes = [], rents = [], rentRepo = (\<lambda>e. []),
      userObj = demoUsers, bikeObj = demoBikes\<rparr>"

definition demoEncrypt :: "string \<Rightarrow> string" where
  "demoEncrypt p = ''hash:'' @ p"

text \<open>
  Ana and Bob registered, bike objects 0 and 2 registered as \<open>bike-1\<close> and \<open>bike-2\<close>;
  then bike-1 rented by Ana at time 0.
\<close>

definition demoRegistered :: App where
  "demoRegistered =
     exec (exec (exec (exec emptyApp
       (RegisterUser 0 ''user-1'' demoEncrypt))
       (RegisterUser 1 ''user-2'' demoEncrypt))
       (RegisterBike 0 ''bike-1''))
       (RegisterBike 2 ''bike-2'')"

definition demoRented :: App where
  "demoRented = exec demoRegistered (RentBike ''bike-1'' ''ana@example.com'' 0)"

section \<open>Arithmetic of numbers\<close>

text \<open>
  Closed facts, computed from the definitions: \<open>60 * 60\<close> is 3600; 9000000 ms (2 h 30 min)
  at rate 10 cost exactly 25; 1000 ms at rate 10 cost \<open>6405119470038039 * 2 ^ - 61\<close>, the
  number printed as 0.002777777777777778, which is not the real number 1 / 360.
\<close>

lemma sixty_times_sixty: "numMul (numOfInt 60) (numOfInt 60) = numOfInt 3600"
  by code_simp

lemma numOfInt_3600: "numOfInt 3600 = Finite False 7916483719987200 (- 41)"
  by code_simp

lemma numOfInt_25: "numOfInt 25 = Finite False 7036874417766400 (- 48)"
  by code_simp

lemma fee_two_and_a_half_hours:
  "numMul (mathAbs (numDiv (numDiv (numSub (getTime 9000000) (getTime 0)) (numOfInt 1000))
      (numOfInt 3600))) (numOfInt 10) = numOfInt 25"
  by code_simp

lemma fee_one_second:
  "numMul (mathAbs (numDiv (numDiv (numSub (getTime 1000) (getTime 0)) (numOfInt 1000))
      (numOfInt 3600))) (numOfInt 10) = Finite False 6405119470038039 (- 61)"
  by code_simp

lemma fee_one_second_rounded: "valueOf False 6405119470038039 (- 61) \<noteq> 1 / 360"
  by (simp add: valueOf_def)

text \<open>
  Rounding to an integer: the result is one of the two integers around the quotient,
  at most half a unit away from it, exact on multiples, and monotone.
\<close>

lemma div_mod_split:
  fixes a b :: int
  assumes "0 < b"
  obtains q r where "a = q * b + r" "0 \<le> r" "r < b" "a div b = q" "a mod b = r"
  using assms by (metis mult.commute mult_div_mod_eq pos_mod_bound pos_mod_sign)

lemma roundHalfEven_between:
  assumes "0 < b"
  shows "a div b \<le> roundHalfEven a b \<and> roundHalfEven a b \<le> a div b + 1"
  by (simp add: roundHalfEven_def Let_def)

lemma roundHalfEven_near:
  assumes "0 < b"
  shows "2 * \<bar>roundHalfEven a b * b - a\<bar> \<le> b"
proof -
  from div_mod_split [OF assms, of a]
  obtain q r where qr: "a = q * b + r" "0 \<le> r" "r < b" "a div b = q" "a mod b = r"
    by blast
  have n: "roundHalfEven a b =
      (if 2 * r < b then q else if b < 2 * r then q + 1 else if even q then q else q + 1)"
    by (simp add: roundHalfEven_def Let_def qr(4,5))
  have "2 * \<bar>q * b - a\<bar> \<le> b" if "2 * r \<le> b"
    using that qr(1,2) by simp
  moreover have "2 * \<bar>(q + 1) * b - a\<bar> \<le> b" if "b \<le> 2 * r"
    using that qr(1,3) by (simp add: algebra_simps)
  ultimately show ?thesis
    unfolding n by (cases "2 * r < b"; cases "b < 2 * r"; cases "even q") simp_all
qed

lemma roundHalfEven_exact:
  assumes "0 < b"
  shows "roundHalfEven (n * b) b = n"
  using assms by (simp add: roundHalfEven_def Let_def)

lemma roundHalfEven_lower:
  assumes "0 < b" and "lo * b \<le> a"
  shows "lo \<le> roundHalfEven a b"
proof -
  from div_mod_split [OF assms(1), of a]
  obtain q r where qr: "a = q * b + r" "0 \<le> r" "r < b" "a div b = q" "a mod b = r"
    by blast
  from assms(2) qr(1,3) have "lo * b < (q + 1) * b"
    by (simp add: algebra_simps)
  with assms(1) have "lo < q + 1"
    by (simp add: mult_less_cancel_right)
  with roundHalfEven_between [OF assms(1), of a] qr(4) show ?thesis
    by linarith
qed

lemma roundHalfEven_upper:
  assumes "0 < b" and "a \<le> hi * b"
  shows "roundHalfEven a b \<le> hi"
proof (cases "a = hi * b")
  case True
  with assms(1) show ?thesis by (simp add: roundHalfEven_exact)
next
  case False
  from div_mod_split [OF assms(1), of a]
  obtain q r where qr: "a = q * b + r" "0 \<le> r" "r < b" "a div b = q" "a mod b = r"
    by blast
  from False assms(2) qr(1,2) have "q * b < hi * b"
    by simp
  with assms(1) have "q < hi"
    by (simp add: mult_less_cancel_right)
  with roundHalfEven_between [OF assms(1), of a] qr(4) show ?thesis
    by linarith
qed

text \<open>
  \<open>floorLog2 num den\<close> is the exponent of the leading bit of \<open>num / den\<close>.
\<close>

lemma bitlen_powi:
  assumes "0 < x"
  shows "2 powi (bitlen x - 1) \<le> real_of_int x" "real_of_int x < 2 powi (bitlen x)"
proof -
  from bitlen_bounds [OF assms]
  have b: "2 ^ nat (bitlen x - 1) \<le> x" "x < 2 ^ nat (bitlen x)"
    by simp_all
  from assms have pos: "1 \<le> bitlen x"
    by (metis bitlen_eq_zero_iff bitlen_nonneg dual_order.strict_iff_order int_one_le_iff_zero_less not_le)
  have "real_of_int (2 ^ nat (bitlen x - 1)) \<le> real_of_int x"
    using b(1) by (rule of_int_le_iff [THEN iffD2])
  then show "2 powi (bitlen x - 1) \<le> real_of_int x"
    using pos by (simp add: power_int_def)
  have "real_of_int x < real_of_int (2 ^ nat (bitlen x))"
    using b(2) by (rule of_int_less_iff [THEN iffD2])
  then show "real_of_int x < 2 powi (bitlen x)"
    using pos by (simp add: power_int_def)
qed

lemma floorLog2_test:
  assumes "0 < num" and "0 < den"
  shows "(if 0 \<le> d then den * 2 ^ nat d \<le> num else den \<le> num * 2 ^ nat (- d)) \<longleftrightarrow>
     real_of_int den * 2 powi d \<le> real_of_int num"
proof (cases "0 \<le> d")
  case True
  have "den * 2 ^ nat d \<le> num \<longleftrightarrow> real_of_int (den * 2 ^ nat d) \<le> real_of_int num"
    by (simp only: of_int_le_iff)
  with True show ?thesis
    by (simp add: power_int_def)
next
  case False
  have "den \<le> num * 2 ^ nat (- d) \<longleftrightarrow> real_of_int den \<le> real_of_int (num * 2 ^ nat (- d))"
    by (simp only: of_int_le_iff)
  with False show ?thesis
    by (simp add: power_int_def field_simps)
qed

lemma floorLog2_bounds:
  assumes "0 < num" and "0 < den"
  shows "real_of_int den * 2 powi (floorLog2 num den) \<le> real_of_int num"
    and "real_of_int num < real_of_int den * 2 powi (floorLog2 num den + 1)"
proof -
  define d where "d = bitlen num - bitlen den"
  note n = bitlen_powi [OF assms(1)] and m = bitlen_powi [OF assms(2)]
  have fl: "floorLog2 num den = (if real_of_int den * 2 powi d \<le> real_of_int num then d else d - 1)"
    by (simp add: floorLog2_def Let_def d_def [symmetric] floorLog2_test [OF assms])
  have up: "real_of_int num < real_of_int den * 2 powi (d + 1)"
  proof -
    have "real_of_int num < 2 powi (bitlen num)" by (rule n(2))
    also have "\<dots> = 2 powi (bitlen den - 1) * 2 powi (d + 1)"
      by (simp add: d_def flip: power_int_add)
    also have "\<dots> \<le> real_of_int den * 2 powi (d + 1)"
      using m(1) by (simp add: mult_right_mono)
    finally show ?thesis .
  qed
  have low: "real_of_int den * 2 powi (d - 1) \<le> real_of_int num"
  proof -
    have "real_of_int den * 2 powi (d - 1) \<le> 2 powi (bitlen den) * 2 powi (d - 1)"
      using m(2) by (simp add: mult_right_mono)
    also have "\<dots> = 2 powi (bitlen num - 1)"
      by (simp add: d_def flip: power_int_add)
    also have "\<dots> \<le> real_of_int num" by (rule n(1))
    finally show ?thesis .
  qed
  show "real_of_int den * 2 powi (floorLog2 num den) \<le> real_of_int num"
    using low by (simp add: fl)
  show "real_of_int num < real_of_int den * 2 powi (floorLog2 num den + 1)"
    using up by (auto simp: fl not_le)
qed

lemma powi_two_less:
  assumes "(2::real) powi j < 2 powi k"
  shows "j < k"
proof (rule ccontr)
  assume "\<not> j < k"
  then have "(2::real) powi k \<le> 2 powi j"
    by (intro power_int_increasing) simp_all
  with assms show False by simp
qed

lemma powi_two_unique:
  fixes x :: real
  assumes "2 powi j \<le> x" "x < 2 powi (j + 1)" "2 powi k \<le> x" "x < 2 powi (k + 1)"
  shows "j = k"
proof -
  from assms(1,4) have "(2::real) powi j < 2 powi (k + 1)" by simp
  then have "j < k + 1" by (rule powi_two_less)
  moreover from assms(3,2) have "(2::real) powi k < 2 powi (j + 1)" by simp
  then have "k < j + 1" by (rule powi_two_less)
  ultimately show ?thesis by simp
qed

lemma powi_two_add:
  "a + b = c \<Longrightarrow> (2::real) powi a * 2 powi b = 2 powi c"
  by (auto simp: power_int_add)

lemma valueOf_powi:
  "valueOf s m e = (if s then - 1 else 1) * real_of_int m * 2 powi e"
  by (simp add: valueOf_def power_int_def field_simps)

lemma valueOf_sign:
  "valueOf s m e = (if s then - 1 else 1) * (real_of_int m * 2 powi e)"
  by (simp add: valueOf_powi)

lemma abs_signed_diff:
  fixes a b :: real
  shows "\<bar>(if s then - 1 else 1) * a - (if s then - 1 else 1) * b\<bar> = \<bar>a - b\<bar>"
  by (simp add: abs_minus_commute)

text \<open>
  \<open>roundPos\<close> rounds correctly: its result is a value of binary64, a finite result is
  at most half a unit in the last place away from the exact value, and an exact value
  that binary64 holds is returned as it is.
\<close>

lemma roundPos_scaled:
  fixes num den e :: int
  assumes "0 < num" and "0 < den"
  defines "u \<equiv> max (floorLog2 num den + e) (- 1022) - 52"
  obtains A B where "0 < A" "0 < B"
    "real_of_int A = real_of_int B * (real_of_int num / real_of_int den * 2 powi (e - u))"
    "roundPos s num den e =
       (if 971 < (if roundHalfEven A B = 2 ^ 53 then u + 1 else u) then Infinity s
        else Finite s (if roundHalfEven A B = 2 ^ 53 then 2 ^ 52 else roundHalfEven A B)
               (if roundHalfEven A B = 2 ^ 53 then u + 1 else u))"
proof (cases "u \<le> e")
  case True
  let ?A = "num * 2 ^ nat (e - u)"
  have "real_of_int ?A = real_of_int den * (real_of_int num / real_of_int den * 2 powi (e - u))"
    using True assms(2) by (simp add: power_int_def)
  moreover have "roundPos s num den e =
       (if 971 < (if roundHalfEven ?A den = 2 ^ 53 then u + 1 else u) then Infinity s
        else Finite s (if roundHalfEven ?A den = 2 ^ 53 then 2 ^ 52 else roundHalfEven ?A den)
               (if roundHalfEven ?A den = 2 ^ 53 then u + 1 else u))"
    using True by (simp add: roundPos_def Let_def flip: u_def)
  moreover have "0 < ?A"
    using assms(1) by simp
  ultimately show ?thesis
    using assms(2) by (intro that [of ?A den])
next
  case False
  let ?B = "den * 2 ^ nat (u - e)"
  have "real_of_int num = real_of_int ?B * (real_of_int num / real_of_int den * 2 powi (e - u))"
    using False assms(2) by (simp add: power_int_def field_simps)
  moreover have "roundPos s num den e =
       (if 971 < (if roundHalfEven num ?B = 2 ^ 53 then u + 1 else u) then Infinity s
        else Finite s (if roundHalfEven num ?B = 2 ^ 53 then 2 ^ 52 else roundHalfEven num ?B)
               (if roundHalfEven num ?B = 2 ^ 53 then u + 1 else u))"
    using False by (simp add: roundPos_def Let_def flip: u_def)
  moreover have "0 < ?B"
    using assms(2) by simp
  ultimately show ?thesis
    using assms(1) by (intro that [of num ?B])
qed

lemma roundPos_significand:
  fixes num den e A B :: int
  assumes "0 < num" and "0 < den" and "0 < B"
  defines "u \<equiv> max (floorLog2 num den + e) (- 1022) - 52"
  assumes A: "real_of_int A = real_of_int B * (real_of_int num / real_of_int den * 2 powi (e - u))"
  shows "roundHalfEven A B \<le> 2 ^ 53"
    and "- 1022 \<le> floorLog2 num den + e \<Longrightarrow> 2 ^ 52 \<le> roundHalfEven A B"
    and "floorLog2 num den + e < - 1022 \<Longrightarrow> roundHalfEven A B \<le> 2 ^ 52"
proof -
  define k where "k = floorLog2 num den"
  define x where "x = real_of_int num / real_of_int den"
  from floorLog2_bounds [OF assms(1,2)] assms(2)
  have x: "2 powi k \<le> x" "x < 2 powi (k + 1)"
    by (simp_all add: x_def k_def field_simps)
  have AB: "real_of_int A = real_of_int B * (x * 2 powi (e - u))"
    using A by (simp add: x_def)
  have Bpos: "0 < real_of_int B"
    using assms(3) by simp
  have scale_le: "real_of_int A \<le> real_of_int B * 2 powi j" if "k + 1 + e - u \<le> j" for j
  proof -
    have "x * 2 powi (e - u) \<le> 2 powi (k + 1) * 2 powi (e - u)"
      using x(2) by (simp add: mult_right_mono)
    also have "\<dots> = 2 powi (k + 1 + e - u)"
      by (simp add: add_diff_eq flip: power_int_add)
    also have "\<dots> \<le> 2 powi j"
      using that by (simp add: power_int_increasing)
    finally show ?thesis
      using Bpos by (simp add: AB)
  qed
  have upper: "roundHalfEven A B \<le> 2 ^ nat j" if "k + 1 + e - u \<le> j" "0 \<le> j" for j
  proof -
    from scale_le [OF that(1)] that(2)
    have "real_of_int A \<le> real_of_int (2 ^ nat j * B)"
      by (simp add: power_int_def mult.commute)
    then have "A \<le> 2 ^ nat j * B"
      by (simp only: of_int_le_iff)
    with assms(3) show ?thesis
      by (intro roundHalfEven_upper)
  qed
  have "k + 1 + e - u \<le> 53"
    by (simp add: u_def k_def)
  from upper [OF this] show "roundHalfEven A B \<le> 2 ^ 53"
    by simp
  show "roundHalfEven A B \<le> 2 ^ 52" if "floorLog2 num den + e < - 1022"
  proof -
    from that have "k + 1 + e - u \<le> 52"
      by (simp add: u_def k_def)
    from upper [OF this] show ?thesis by simp
  qed
  show "2 ^ 52 \<le> roundHalfEven A B" if "- 1022 \<le> floorLog2 num den + e"
  proof -
    from that have u: "k + e - u = 52"
      by (simp add: u_def k_def)
    have "k + (e - u) = 52"
      using u by simp
    then have "(2::real) powi 52 = 2 powi (k + (e - u))"
      by simp
    also have "\<dots> = 2 powi k * 2 powi (e - u)"
      by (simp add: power_int_add)
    also have "\<dots> \<le> x * 2 powi (e - u)"
      using x(1) by (simp add: mult_right_mono)
    finally have "real_of_int B * 2 powi 52 \<le> real_of_int A"
      using Bpos by (simp add: AB)
    then have "real_of_int (2 ^ 52 * B) \<le> real_of_int A"
      by (simp add: mult.commute)
    then have "2 ^ 52 * B \<le> A"
      by (simp only: of_int_le_iff)
    with assms(3) show ?thesis
      by (intro roundHalfEven_lower)
  qed
qed

lemma roundPos_wellFormed:
  fixes num den :: int
  assumes "0 < num" and "0 < den"
  shows "wellFormed (roundPos s num den e)"
proof -
  define u where "u = max (floorLog2 num den + e) (- 1022) - 52"
  from roundPos_scaled [OF assms, of e s, folded u_def]
  obtain A B where AB: "0 < A" "0 < B"
    "real_of_int A = real_of_int B * (real_of_int num / real_of_int den * 2 powi (e - u))"
    "roundPos s num den e =
       (if 971 < (if roundHalfEven A B = 2 ^ 53 then u + 1 else u) then Infinity s
        else Finite s (if roundHalfEven A B = 2 ^ 53 then 2 ^ 52 else roundHalfEven A B)
               (if roundHalfEven A B = 2 ^ 53 then u + 1 else u))"
    by blast
  define n where "n = roundHalfEven A B"
  note sig = roundPos_significand [OF assms AB(2) AB(3) [unfolded u_def], folded n_def]
  have nonneg: "0 \<le> n"
    using roundHalfEven_lower [of B 0 A] AB(1,2) by (simp add: n_def)
  show ?thesis
  proof (cases "- 1022 \<le> floorLog2 num den + e")
    case True
    then have "- 1074 \<le> u" by (simp add: u_def)
    with sig(1) sig(2) [OF True] show ?thesis
      by (auto simp: AB(4) n_def [symmetric])
  next
    case False
    then have "u = - 1074" by (simp add: u_def)
    with sig(3) nonneg False show ?thesis
      by (auto simp: AB(4) n_def [symmetric])
  qed
qed

lemma roundPos_error:
  fixes num den :: int
  assumes "0 < num" and "0 < den" and "roundPos s num den e = Finite t m k"
  shows "t = s"
    and "\<bar>real_of_int m * 2 powi k - real_of_int num / real_of_int den * 2 powi e\<bar>
            \<le> 2 powi (k - 1)"
proof -
  define u where "u = max (floorLog2 num den + e) (- 1022) - 52"
  define x where "x = real_of_int num / real_of_int den"
  from roundPos_scaled [OF assms(1,2), of e s, folded u_def]
  obtain A B where AB: "0 < A" "0 < B"
    "real_of_int A = real_of_int B * (real_of_int num / real_of_int den * 2 powi (e - u))"
    "roundPos s num den e =
       (if 971 < (if roundHalfEven A B = 2 ^ 53 then u + 1 else u) then Infinity s
        else Finite s (if roundHalfEven A B = 2 ^ 53 then 2 ^ 52 else roundHalfEven A B)
               (if roundHalfEven A B = 2 ^ 53 then u + 1 else u))"
    by blast
  define n where "n = roundHalfEven A B"
  from assms(3) AB(4) have res: "t = s"
    "m = (if n = 2 ^ 53 then 2 ^ 52 else n)" "k = (if n = 2 ^ 53 then u + 1 else u)"
    by (auto simp: n_def split: if_splits)
  show "t = s" by (rule res(1))
  have same: "real_of_int m * 2 powi k = real_of_int n * 2 powi u"
    by (simp add: res(2,3) power_int_add)
  have k: "u \<le> k"
    by (simp add: res(3))
  have Bpos: "0 < real_of_int B"
    using AB(2) by simp
  from roundHalfEven_near [OF AB(2), of A]
  have "real_of_int (2 * \<bar>n * B - A\<bar>) \<le> real_of_int B"
    unfolding n_def by (simp only: of_int_le_iff)
  then have "2 * \<bar>real_of_int n * real_of_int B - real_of_int A\<bar> \<le> real_of_int B"
    by simp
  then have "2 * \<bar>real_of_int B * (real_of_int n - x * 2 powi (e - u))\<bar> \<le> real_of_int B"
    by (simp add: AB(3) x_def algebra_simps)
  then have "2 * (real_of_int B * \<bar>real_of_int n - x * 2 powi (e - u)\<bar>) \<le> real_of_int B * 1"
    using Bpos by (simp add: abs_mult)
  then have half: "\<bar>real_of_int n - x * 2 powi (e - u)\<bar> \<le> 1 / 2"
    using Bpos by (simp add: mult.left_commute)
  have "real_of_int n * 2 powi u - x * 2 powi e =
      (real_of_int n - x * 2 powi (e - u)) * 2 powi u"
    by (simp add: algebra_simps power_int_diff)
  then have "\<bar>real_of_int n * 2 powi u - x * 2 powi e\<bar> =
      \<bar>real_of_int n - x * 2 powi (e - u)\<bar> * 2 powi u"
    by (simp add: abs_mult)
  also have "\<dots> \<le> 1 / 2 * 2 powi u"
    using half by (intro mult_right_mono) simp_all
  also have "\<dots> = 2 powi (u - 1)"
    by (simp add: power_int_diff)
  also have "\<dots> \<le> 2 powi (k - 1)"
    using k by (intro power_int_increasing) simp_all
  finally show "\<bar>real_of_int m * 2 powi k - real_of_int num / real_of_int den * 2 powi e\<bar>
            \<le> 2 powi (k - 1)"
    by (simp add: same x_def)
qed

lemma roundPos_representable:
  fixes num den :: int
  assumes "0 < num" and "0 < den" and wf: "wellFormed (Finite s m k)" and "0 < m"
    and eq: "real_of_int num / real_of_int den * 2 powi e = real_of_int m * 2 powi k"
  shows "roundPos s num den e = Finite s m k"
proof -
  define u where "u = max (floorLog2 num den + e) (- 1022) - 52"
  define x where "x = real_of_int num / real_of_int den"
  define F where "F = floorLog2 num den"
  define L where "L = bitlen m - 1"
  from floorLog2_bounds [OF assms(1,2)] assms(2)
  have x: "2 powi F \<le> x" "x < 2 powi (F + 1)"
    by (simp_all add: x_def F_def field_simps)
  have v1: "2 powi (F + e) \<le> x * 2 powi e" "x * 2 powi e < 2 powi (F + e + 1)"
  proof -
    have "2 powi (F + e) = 2 powi F * (2::real) powi e"
      by (simp add: power_int_add)
    also have "\<dots> \<le> x * 2 powi e"
      using x(1) by (simp add: mult_right_mono)
    finally show "2 powi (F + e) \<le> x * 2 powi e" .
    have "x * 2 powi e < 2 powi (F + 1) * 2 powi e"
      using x(2) by (simp add: mult_strict_right_mono)
    also have "\<dots> = 2 powi (F + e + 1)"
      by (rule powi_two_add) simp
    finally show "x * 2 powi e < 2 powi (F + e + 1)" .
  qed
  from bitlen_powi [OF assms(4)]
  have m: "2 powi L \<le> real_of_int m" "real_of_int m < 2 powi (L + 1)"
    by (simp_all add: L_def)
  have v2: "2 powi (L + k) \<le> real_of_int m * 2 powi k"
    "real_of_int m * 2 powi k < 2 powi (L + k + 1)"
  proof -
    have "2 powi (L + k) = 2 powi L * (2::real) powi k"
      by (simp add: power_int_add)
    also have "\<dots> \<le> real_of_int m * 2 powi k"
      using m(1) by (simp add: mult_right_mono)
    finally show "2 powi (L + k) \<le> real_of_int m * 2 powi k" .
    have "real_of_int m * 2 powi k < 2 powi (L + 1) * 2 powi k"
      using m(2) by (simp add: mult_strict_right_mono)
    also have "\<dots> = 2 powi (L + k + 1)"
      by (rule powi_two_add) simp
    finally show "real_of_int m * 2 powi k < 2 powi (L + k + 1)" .
  qed
  have FL: "F + e = L + k"
    using v1 v2 unfolding eq [folded x_def] by (rule powi_two_unique)
  have small: "m < 2 ^ 53"
    using wf by auto
  have uk: "u = k"
  proof (cases "2 ^ 52 \<le> m")
    case True
    with wf have k: "- 1074 \<le> k"
      by auto
    from True small have "2 powi 52 \<le> real_of_int m" "real_of_int m < 2 powi (52 + 1)"
      by simp_all
    with m have "L = 52"
      by (intro powi_two_unique [of L "real_of_int m" 52])
    with FL k show ?thesis
      by (simp add: u_def F_def)
  next
    case False
    with wf have k: "k = - 1074"
      by auto
    from False m(1) have "(2::real) powi L < 2 powi 52"
      by simp
    then have "L < 52" by (rule powi_two_less)
    with FL k show ?thesis
      by (simp add: u_def F_def)
  qed
  from roundPos_scaled [OF assms(1,2), of e s, folded u_def]
  obtain A B where AB: "0 < A" "0 < B"
    "real_of_int A = real_of_int B * (real_of_int num / real_of_int den * 2 powi (e - u))"
    "roundPos s num den e =
       (if 971 < (if roundHalfEven A B = 2 ^ 53 then u + 1 else u) then Infinity s
        else Finite s (if roundHalfEven A B = 2 ^ 53 then 2 ^ 52 else roundHalfEven A B)
               (if roundHalfEven A B = 2 ^ 53 then u + 1 else u))"
    by blast
  have "x * 2 powi (e - k) = x * 2 powi e / 2 powi k"
    by (simp add: power_int_diff)
  also have "\<dots> = real_of_int m"
    by (simp add: eq [folded x_def])
  finally have "real_of_int A = real_of_int (m * B)"
    using AB(3) by (simp add: uk x_def mult.commute)
  then have "A = m * B"
    by (simp only: of_int_eq_iff)
  with AB(2) have n: "roundHalfEven A B = m"
    by (simp add: roundHalfEven_exact)
  from wf have "k \<le> 971"
    by auto
  with small show ?thesis
    by (simp add: AB(4) n uk)
qed

text \<open>
  So are the operators: a finite difference, product or quotient of finite numbers is
  within half a unit in the last place of the exact one, the results are values of
  binary64, and integers below \<open>2 ^ 53\<close> in absolute value, the time values among them,
  are held exactly.
\<close>

lemma numSub_rounds:
  assumes "numSub (Finite s1 m1 e1) (Finite s2 m2 e2) = Finite t m k"
  shows "\<bar>valueOf t m k - (valueOf s1 m1 e1 - valueOf s2 m2 e2)\<bar> \<le> 2 powi (k - 1)"
proof -
  define c where "c = min e1 e2"
  define a where "a = (if s1 then - m1 else m1) * 2 ^ nat (e1 - c)"
  define b where "b = (if s2 then - m2 else m2) * 2 ^ nat (e2 - c)"
  define d where "d = a - b"
  have c: "c \<le> e1" "c \<le> e2"
    by (simp_all add: c_def)
  have shift: "real_of_int (2 ^ nat (e - c)) * 2 powi c = 2 powi e" if "c \<le> e" for e
  proof -
    have "real_of_int (2 ^ nat (e - c)) = 2 powi (e - c)"
      using that by (simp add: power_int_def)
    then show ?thesis
      by (simp add: powi_two_add)
  qed
  have va: "real_of_int a * 2 powi c = valueOf s1 m1 e1"
    using shift [OF c(1)] by (simp add: a_def valueOf_powi mult.assoc)
  have vb: "real_of_int b * 2 powi c = valueOf s2 m2 e2"
    using shift [OF c(2)] by (simp add: b_def valueOf_powi mult.assoc)
  have diff: "valueOf s1 m1 e1 - valueOf s2 m2 e2 = real_of_int d * 2 powi c"
    by (simp add: d_def algebra_simps flip: va vb)
  have res: "numSub (Finite s1 m1 e1) (Finite s2 m2 e2) =
      (if d = 0 then signedZero (m1 = 0 \<and> m2 = 0 \<and> s1 \<and> \<not> s2) else roundPos (d < 0) \<bar>d\<bar> 1 c)"
    by (simp add: Let_def d_def a_def b_def c_def)
  show ?thesis
  proof (cases "d = 0")
    case True
    with assms res have "m = 0"
      by (simp add: signedZero_def)
    then have "valueOf t m k = 0"
      by (simp add: valueOf_def)
    moreover from True have "valueOf s1 m1 e1 - valueOf s2 m2 e2 = 0"
      by (simp add: diff)
    ultimately show ?thesis
      by simp
  next
    case False
    with assms res have r: "roundPos (d < 0) \<bar>d\<bar> 1 c = Finite t m k"
      by simp
    from False have pos: "0 < \<bar>d\<bar>"
      by simp
    from roundPos_error [OF pos _ r]
    have t: "t = (d < 0)"
      and err: "\<bar>real_of_int m * 2 powi k - real_of_int \<bar>d\<bar> / real_of_int 1 * 2 powi c\<bar>
        \<le> 2 powi (k - 1)"
      by simp_all
    have "real_of_int d * 2 powi c =
        (if t then - 1 else 1) * (real_of_int \<bar>d\<bar> / real_of_int 1 * 2 powi c)"
      by (simp add: t)
    then show ?thesis
      unfolding diff valueOf_sign [of t] using err by (simp only: abs_signed_diff)
  qed
qed

lemma numMul_rounds:
  assumes "0 < m1" and "0 < m2"
    and "numMul (Finite s1 m1 e1) (Finite s2 m2 e2) = Finite t m k"
  shows "\<bar>valueOf t m k - valueOf s1 m1 e1 * valueOf s2 m2 e2\<bar> \<le> 2 powi (k - 1)"
proof -
  from assms have r: "roundPos (s1 \<noteq> s2) (m1 * m2) 1 (e1 + e2) = Finite t m k"
    by simp
  from assms(1,2) have pos: "0 < m1 * m2"
    by simp
  from roundPos_error [OF pos _ r]
  have t: "t = (s1 \<noteq> s2)"
    and err: "\<bar>real_of_int m * 2 powi k - real_of_int (m1 * m2) / real_of_int 1 * 2 powi (e1 + e2)\<bar>
        \<le> 2 powi (k - 1)"
    by simp_all
  have prod: "valueOf s1 m1 e1 * valueOf s2 m2 e2 =
      (if t then - 1 else 1) * (real_of_int (m1 * m2) / real_of_int 1 * 2 powi (e1 + e2))"
    by (simp add: valueOf_powi t power_int_add)
  show ?thesis
    unfolding prod valueOf_sign [of t] abs_signed_diff using err .
qed

lemma numDiv_rounds:
  assumes "0 < m1" and "0 < m2"
    and "numDiv (Finite s1 m1 e1) (Finite s2 m2 e2) = Finite t m k"
  shows "\<bar>valueOf t m k - valueOf s1 m1 e1 / valueOf s2 m2 e2\<bar> \<le> 2 powi (k - 1)"
proof -
  from assms have r: "roundPos (s1 \<noteq> s2) m1 m2 (e1 - e2) = Finite t m k"
    by simp
  from roundPos_error [OF assms(1,2) r]
  have t: "t = (s1 \<noteq> s2)"
    and err: "\<bar>real_of_int m * 2 powi k - real_of_int m1 / real_of_int m2 * 2 powi (e1 - e2)\<bar>
        \<le> 2 powi (k - 1)"
    by simp_all
  have quot: "valueOf s1 m1 e1 / valueOf s2 m2 e2 =
      (if t then - 1 else 1) * (real_of_int m1 / real_of_int m2 * 2 powi (e1 - e2))"
    using assms(2) by (simp add: valueOf_powi t power_int_diff)
  show ?thesis
    unfolding quot valueOf_sign [of t] abs_signed_diff using err .
qed

lemma wellFormed_signedZero: "wellFormed (signedZero s)"
  by (simp add: signedZero_def)

lemma wellFormed_numOfInt: "wellFormed (numOfInt i)"
  by (simp add: numOfInt_def wellFormed_signedZero roundPos_wellFormed)

lemma wellFormed_numSub: "wellFormed (numSub x y)"
  by (cases x; cases y) (simp_all add: Let_def wellFormed_signedZero roundPos_wellFormed)

lemma wellFormed_numMul: "wellFormed x \<Longrightarrow> wellFormed y \<Longrightarrow> wellFormed (numMul x y)"
proof (cases x; cases y)
  fix s1 m1 e1 s2 m2 e2
  assume xy: "x = Finite s1 m1 e1" "y = Finite s2 m2 e2" and "wellFormed x" "wellFormed y"
  then have "0 \<le> m1" "0 \<le> m2" by auto
  then have "m1 = 0 \<or> m2 = 0 \<or> 0 < m1 * m2"
    by (metis mult_pos_pos order_le_less)
  then show "wellFormed (numMul x y)"
    by (auto simp: xy wellFormed_signedZero roundPos_wellFormed simp del: wellFormed.simps(1))
qed simp_all

lemma wellFormed_numDiv: "wellFormed x \<Longrightarrow> wellFormed y \<Longrightarrow> wellFormed (numDiv x y)"
proof (cases x; cases y)
  fix s1 m1 e1 s2 m2 e2
  assume xy: "x = Finite s1 m1 e1" "y = Finite s2 m2 e2" and "wellFormed x" "wellFormed y"
  then have "0 \<le> m1" "0 \<le> m2" by auto
  then have "m1 = 0 \<or> m2 = 0 \<or> (0 < m1 \<and> 0 < m2)"
    by linarith
  then show "wellFormed (numDiv x y)"
    by (auto simp: xy wellFormed_signedZero roundPos_wellFormed simp del: wellFormed.simps(1))
qed (simp_all add: wellFormed_signedZero)

lemma wellFormed_mathAbs: "wellFormed x \<Longrightarrow> wellFormed (mathAbs x)"
  by (cases x) simp_all

lemma wellFormed_diffHours: "wellFormed (diffHours dt2 dt1)"
  by (simp add: diffHours_def getTime_def Let_def wellFormed_mathAbs wellFormed_numDiv
      wellFormed_numSub wellFormed_numMul wellFormed_numOfInt)

lemma numOfInt_exact:
  assumes "\<bar>i\<bar> < 2 ^ 53"
  shows "\<exists>m k. numOfInt i = Finite (i < 0) m k \<and> wellFormed (Finite (i < 0) m k) \<and>
    valueOf (i < 0) m k = real_of_int i"
proof (cases "i = 0")
  case True
  then show ?thesis
    by (simp add: numOfInt_def signedZero_def valueOf_def)
next
  case False
  define a where "a = \<bar>i\<bar>"
  define b where "b = bitlen a"
  have a: "0 < a" "a < 2 ^ 53"
    using False assms by (simp_all add: a_def)
  from bitlen_bounds [OF a(1)] have bb: "2 ^ nat (b - 1) \<le> a" "a < 2 ^ nat b"
    by (simp_all add: b_def)
  have b1: "1 \<le> b"
    using a(1) bitlen_nonneg [of a] bitlen_eq_zero_iff [of a] by (simp add: b_def)
  have b53: "b \<le> 53"
  proof (rule ccontr)
    assume "\<not> b \<le> 53"
    then have "53 \<le> nat (b - 1)" by simp
    then have "(2::int) ^ 53 \<le> 2 ^ nat (b - 1)"
      by (intro power_increasing) simp_all
    with bb(1) a(2) show False by simp
  qed
  define m where "m = a * 2 ^ nat (53 - b)"
  define k where "k = b - 53"
  have pw: "(2::int) ^ nat (b - 1) * 2 ^ nat (53 - b) = 2 ^ 52"
    "(2::int) ^ nat b * 2 ^ nat (53 - b) = 2 ^ 53"
    using b1 b53 by (simp_all flip: power_add add: nat_diff_distrib nat_add_distrib)
  have lo: "2 ^ 52 \<le> m"
  proof -
    have "2 ^ nat (b - 1) * 2 ^ nat (53 - b) \<le> a * (2::int) ^ nat (53 - b)"
      using bb(1) by (intro mult_right_mono) simp_all
    then show ?thesis by (simp add: pw m_def)
  qed
  have hi: "m < 2 ^ 53"
  proof -
    have "a * (2::int) ^ nat (53 - b) < 2 ^ nat b * 2 ^ nat (53 - b)"
      using bb(2) by (intro mult_strict_right_mono) simp_all
    then show ?thesis by (simp add: pw m_def)
  qed
  have wf: "wellFormed (Finite (i < 0) m k)"
    using lo hi b1 b53 by (simp add: k_def)
  have val: "real_of_int m * 2 powi k = real_of_int a"
    using b53 by (simp add: m_def k_def power_int_def field_simps)
  have "roundPos (i < 0) a 1 0 = Finite (i < 0) m k"
    using a(1) wf lo by (intro roundPos_representable) (simp_all add: val)
  moreover have "valueOf (i < 0) m k = real_of_int i"
    unfolding valueOf_powi using val by (simp add: a_def mult.assoc)
  ultimately show ?thesis
    using False wf by (simp add: numOfInt_def a_def)
qed

lemma getTime_exact:
  assumes "\<bar>t\<bar> \<le> 8640000000000000"
  shows "\<exists>m k. getTime t = Finite (t < 0) m k \<and> valueOf (t < 0) m k = real_of_int t"
proof -
  from assms have "\<bar>t\<bar> < 2 ^ 53" by simp
  from numOfInt_exact [OF this] show ?thesis
    by (auto simp: getTime_def)
qed

text \<open>The absolute value of a rounded value is the rounded absolute value, so
  \<open>Math.abs\<close> may be taken before or after the division by 3600.\<close>

lemma mathAbs_roundPos: "mathAbs (roundPos s num den e) = roundPos False num den e"
  by (simp add: roundPos_def Let_def)

lemma mathAbs_numDiv_3600:
  "mathAbs (numDiv x (numOfInt 3600)) = numDiv (mathAbs x) (numOfInt 3600)"
  by (cases x) (simp_all add: numOfInt_3600 mathAbs_roundPos signedZero_def)

section \<open>Lookups in arrays\<close>

text \<open>
  \<open>findIndex\<close> finds the first matching position, and \<open>find\<close> returns the
  element at that position: the object that \<open>Array.prototype.find\<close> hands back is the
  one at the position \<open>findIndex\<close> reports.
\<close>

lemma findIndex_None: "findIndex P xs = None \<longleftrightarrow> (\<forall>x\<in>set xs. \<not> P x)"
  by (induction xs) auto

lemma findIndex_Some:
  "findIndex P xs = Some i \<Longrightarrow> i < length xs \<and> P (xs ! i) \<and> (\<forall>j<i. \<not> P (xs ! j))"
proof (induction xs arbitrary: i)
  case Nil
  then show ?case by simp
next
  case (Cons x xs)
  show ?case
  proof (cases "P x")
    case True
    with Cons.prems show ?thesis by simp
  next
    case False
    with Cons.prems obtain k where k: "findIndex P xs = Some k" "i = Suc k"
      by auto
    from Cons.IH [OF k(1)] False k(2) show ?thesis
      by (auto simp: nth_Cons split: nat.splits)
  qed
qed

lemma find_findIndex: "find P xs = map_option (\<lambda>i. xs ! i) (findIndex P xs)"
  by (induction xs) (auto simp: option.map_comp comp_def)

lemma find_absent: "(\<forall>x\<in>set xs. \<not> P x) \<Longrightarrow> find P xs = None"
  by (simp add: find_None_iff)

lemma find_present: "\<exists>x\<in>set xs. P x \<Longrightarrow> \<exists>x\<in>set xs. P x \<and> find P xs = Some x"
  by (induction xs) auto

lemma find_snoc_last:
  "P b \<Longrightarrow> (\<forall>a\<in>set xs. P a \<longrightarrow> a = b) \<Longrightarrow> find P (xs @ [b]) = Some b"
  by (induction xs) auto

lemma findBike_absent:
  "(\<forall>b\<in>set (bikes app). bike_id (bikeObj app b) \<noteq> Some bikeId) \<Longrightarrow>
   findBike app bikeId = Inl BikeNotFound"
  using find_absent [of "bikes app" "\<lambda>b. bike_id (bikeObj app b) = Some bikeId"]
  by (simp add: findBike_def)

lemma findBike_present:
  "\<exists>b\<in>set (bikes app). bike_id (bikeObj app b) = Some bikeId \<Longrightarrow>
   \<exists>b\<in>set (bikes app). bike_id (bikeObj app b) = Some bikeId \<and> findBike app bikeId = Inr b"
  using find_present [of "bikes app" "\<lambda>b. bike_id (bikeObj app b) = Some bikeId"]
  by (auto simp: findBike_def)

lemma findBike_Inr:
  "findBike app bikeId = Inr b \<Longrightarrow> b \<in> set (bikes app) \<and> bike_id (bikeObj app b) = Some bikeId"
  by (auto simp: findBike_def find_Some_iff split: option.splits)

section \<open>The concrete states, evaluated\<close>

lemma demoRegistered_fields:
  "users demoRegistered = [0, 1]"
  "bikes demoRegistered = [0, 2]"
  "rents demoRegistered = []"
  "rentRepo demoRegistered = (\<lambda>e. [])"
  "userObj demoRegistered =
     demoUsers(0 := \<lparr>user_id = Some ''user-1'', email = ''ana@example.com'', password = ''hash:secret''\<rparr>,
               1 := \<lparr>user_id = Some ''user-2'', email = ''bob@example.com'', password = ''hash:secret''\<rparr>)"
  "bikeObj demoRegistered =
     demoBikes(0 := \<lparr>bike_id = Some ''bike-1'', rate = numOfInt 10, available = True,
                     location = \<lparr>latitude = numOfInt 0, longitude = numOfInt 0\<rparr>\<rparr>,
               2 := \<lparr>bike_id = Some ''bike-2'', rate = numOfInt 10, available = True,
                     location = \<lparr>latitude = numOfInt 0, longitude = numOfInt 0\<rparr>\<rparr>)"
  by (simp_all add: demoRegistered_def emptyApp_def registerUser_def registerBike_def
      Let_def demoUsers_def demoBikes_def demoEncrypt_def)

lemma demoRented_fields:
  "users demoRented = [0, 1]"
  "bikes demoRented = [0, 2]"
  "rents demoRented = [\<lparr>bike = 0, user = 0, start = 0, end_date = None\<rparr>]"
  "rentRepo demoRented = (\<lambda>e. [])"
  "userObj demoRented = userObj demoRegistered"
  "bikeObj demoRented =
     (bikeObj demoRegistered)(0 := \<lparr>bike_id = Some ''bike-1'', rate = numOfInt 10, available = False,
                     location = \<lparr>latitude = numOfInt 0, longitude = numOfInt 0\<rparr>\<rparr>)"
  by (simp_all add: demoRented_def demoRegistered_fields rentBike_def findBike_def findUser_def
      Let_def demoUsers_def demoBikes_def)

section \<open>Lookups of users\<close>

text \<open>
  C9. For every state and email: when no user of the collection has the email,
  \<open>getUserByEmail\<close> returns an absent result and raises nothing, while \<open>findUser\<close>
  (the throwing lookup) fails with \<open>UserNotFound\<close>; when some user has it, both return
  the same user, one of the collection that carries the email.
\<close>

theorem C9_lookup_contracts:
  "((\<forall>u\<in>set (users app). email (userObj app u) \<noteq> e) \<longrightarrow>
      getUserByEmail app e = None \<and> findUser app e = Inl UserNotFound) \<and>
   ((\<exists>u\<in>set (users app). email (userObj app u) = e) \<longrightarrow>
      (\<exists>u\<in>set (users app). email (userObj app u) = e \<and>
         getUserByEmail app e = Some u \<and> findUser app e = Inr u))"
proof (intro conjI impI)
  assume "\<forall>u\<in>set (users app). email (userObj app u) \<noteq> e"
  then have "find (\<lambda>u. email (userObj app u) = e) (users app) = None"
    by (intro find_absent) simp
  then show "getUserByEmail app e = None" "findUser app e = Inl UserNotFound"
    by (simp_all add: getUserByEmail_def findUser_def)
next
  assume "\<exists>u\<in>set (users app). email (userObj app u) = e"
  from find_present [OF this]
  obtain u where "u \<in> set (users app)" "email (userObj app u) = e"
    "find (\<lambda>u. email (userObj app u) = e) (users app) = Some u"
    by blast
  then show "\<exists>u\<in>set (users app). email (userObj app u) = e \<and>
         getUserByEmail app e = Some u \<and> findUser app e = Inr u"
    by (auto simp: getUserByEmail_def findUser_def)
qed

text \<open>
  In the registry with Ana and Bob, nobody is Carl: the first lookup is absent and the
  second fails; Bob is user object 1 for both.
\<close>

theorem C9_lookup_contracts_witness:
  "getUserByEmail demoRegistered ''carl@example.com'' = None \<and>
   findUser demoRegistered ''carl@example.com'' = Inl UserNotFound \<and>
   getUserByEmail demoRegistered ''bob@example.com'' = Some 1 \<and>
   findUser demoRegistered ''bob@example.com'' = Inr 1"
proof -
  have absent: "\<forall>u\<in>set (users demoRegistered). email (userObj demoRegistered u) \<noteq> ''carl@example.com''"
    by (simp add: demoRegistered_fields)
  have present: "\<exists>u\<in>set (users demoRegistered). email (userObj demoRegistered u) = ''bob@example.com''"
    by (simp add: demoRegistered_fields)
  from C9_lookup_contracts [of demoRegistered "''carl@example.com''"] absent
  have first: "getUserByEmail demoRegistered ''carl@example.com'' = None"
    "findUser demoRegistered ''carl@example.com'' = Inl UserNotFound"
    by blast+
  from C9_lookup_contracts [of demoRegistered "''bob@example.com''"] present
  obtain u where u: "u \<in> set (users demoRegistered)"
    "email (userObj demoRegistered u) = ''bob@example.com''"
    "getUserByEmail demoRegistered ''bob@example.com'' = Some u"
    "findUser demoRegistered ''bob@example.com'' = Inr u"
    by blast
  from u(1,2) have "u = 1"
    by (auto simp: demoRegistered_fields)
  with first u(3,4) show ?thesis
    by simp
qed

section \<open>Renting a bike\<close>

text \<open>
  C10. \<open>rentBike\<close> is atomic on failure: whenever it fails, with whatever error, the
  state it leaves is the state it was called in. In particular, when the bike exists and
  is available but no user has the email, the call fails with \<open>UserNotFound\<close>, the
  bike is still available and no rent has been appended: the flag is written only after
  the user lookup has succeeded.
\<close>

theorem C10_rentBike_atomic:
  "(\<forall>err. fst (rentBike app bikeId userEmail now) = Inl err \<longrightarrow>
      snd (rentBike app bikeId userEmail now) = app) \<and>
   (\<forall>b. findBike app bikeId = Inr b \<and> available (bikeObj app b) \<and>
        (\<forall>u\<in>set (users app). email (userObj app u) \<noteq> userEmail) \<longrightarrow>
      rentBike app bikeId userEmail now = (Inl UserNotFound, app) \<and>
      available (bikeObj (snd (rentBike app bikeId userEmail now)) b) \<and>
      rents (snd (rentBike app bikeId userEmail now)) = rents app)"
proof -
  have nouser: "findUser app userEmail = Inl UserNotFound"
    if "\<forall>u\<in>set (users app). email (userObj app u) \<noteq> userEmail"
    using find_absent [of "users app" "\<lambda>u. email (userObj app u) = userEmail"] that
    by (simp add: findUser_def)
  show ?thesis
    by (auto simp: rentBike_def Let_def nouser split: sum.splits)
qed

text \<open>
  The three failures on concrete states: an absent user for an available bike, a bike
  that is rented already, and an identifier that no bike has.
\<close>

theorem C10_rentBike_atomic_witness:
  "rentBike demoRegistered ''bike-1'' ''carl@example.com'' 7 = (Inl UserNotFound, demoRegistered) \<and>
   available (bikeObj demoRegistered 0) \<and>
   rentBike demoRented ''bike-1'' ''bob@example.com'' 7 = (Inl UnavailableBike, demoRented) \<and>
   rentBike demoRented ''bike-9'' ''bob@example.com'' 7 = (Inl BikeNotFound, demoRented)"
proof -
  have found: "findBike demoRegistered ''bike-1'' = Inr 0" "available (bikeObj demoRegistered 0)"
    by (simp_all add: findBike_def demoRegistered_fields)
  have absent: "\<forall>u\<in>set (users demoRegistered). email (userObj demoRegistered u) \<noteq> ''carl@example.com''"
    by (simp add: demoRegistered_fields)
  from C10_rentBike_atomic [of demoRegistered "''bike-1''" "''carl@example.com''" 7] found absent
  have first: "rentBike demoRegistered ''bike-1'' ''carl@example.com'' 7 = (Inl UserNotFound, demoRegistered)"
    by blast
  have fails: "fst (rentBike demoRented ''bike-1'' ''bob@example.com'' 7) = Inl UnavailableBike"
    "fst (rentBike demoRented ''bike-9'' ''bob@example.com'' 7) = Inl BikeNotFound"
    by (simp_all add: rentBike_def findBike_def demoRented_fields demoRegistered_fields)
  from C10_rentBike_atomic [of demoRented "''bike-1''" "''bob@example.com''" 7] fails(1)
  have second: "rentBike demoRented ''bike-1'' ''bob@example.com'' 7 = (Inl UnavailableBike, demoRented)"
    by (simp add: prod_eq_iff)
  from C10_rentBike_atomic [of demoRented "''bike-9''" "''bob@example.com''" 7] fails(2)
  have third: "rentBike demoRented ''bike-9'' ''bob@example.com'' 7 = (Inl BikeNotFound, demoRented)"
    by (simp add: prod_eq_iff)
  from first found(2) second third show ?thesis
    by simp
qed

section \<open>Moving a bike\<close>

lemma moveBikeTo_found:
  "findBike app bikeId = Inr b \<Longrightarrow>
   moveBikeTo app bikeId loc =
     (Inr (), app\<lparr>bikeObj := (bikeObj app)(b := (bikeObj app b)\<lparr>location :=
        (location (bikeObj app b))\<lparr>latitude := latitude loc, longitude := longitude loc\<rparr>\<rparr>)\<rparr>)"
  by (simp add: moveBikeTo_def Let_def)

text \<open>
  C8. When a bike of the collection has the given identifier, \<open>moveBikeTo\<close> succeeds
  on the first such bike and overwrites its latitude and longitude with those of the
  given location; its identifier, rate and availability, every other bike object, the
  three arrays, the user objects and the collaborator are unchanged. When no bike has
  the identifier, it fails with \<open>BikeNotFound\<close> and the state is unchanged.
\<close>

theorem C8_moveBikeTo_frame:
  "((\<exists>b\<in>set (bikes app). bike_id (bikeObj app b) = Some bikeId) \<longrightarrow>
      (\<exists>b\<in>set (bikes app). findBike app bikeId = Inr b \<and>
         bike_id (bikeObj app b) = Some bikeId \<and>
         fst (moveBikeTo app bikeId loc) = Inr () \<and>
         (let app' = snd (moveBikeTo app bikeId loc) in
            latitude (location (bikeObj app' b)) = latitude loc \<and>
            longitude (location (bikeObj app' b)) = longitude loc \<and>
            bike_id (bikeObj app' b) = bike_id (bikeObj app b) \<and>
            rate (bikeObj app' b) = rate (bikeObj app b) \<and>
            available (bikeObj app' b) = available (bikeObj app b) \<and>
            (\<forall>a. a \<noteq> b \<longrightarrow> bikeObj app' a = bikeObj app a) \<and>
            users app' = users app \<and> bikes app' = bikes app \<and> rents app' = rents app \<and>
            userObj app' = userObj app \<and> rentRepo app' = rentRepo app))) \<and>
   ((\<forall>b\<in>set (bikes app). bike_id (bikeObj app b) \<noteq> Some bikeId) \<longrightarrow>
      moveBikeTo app bikeId loc = (Inl BikeNotFound, app))"
proof (intro conjI impI)
  assume "\<exists>b\<in>set (bikes app). bike_id (bikeObj app b) = Some bikeId"
  from findBike_present [OF this]
  obtain b where b: "b \<in> set (bikes app)" "bike_id (bikeObj app b) = Some bikeId"
    "findBike app bikeId = Inr b"
    by blast
  show "\<exists>b\<in>set (bikes app). findBike app bikeId = Inr b \<and>
         bike_id (bikeObj app b) = Some bikeId \<and>
         fst (moveBikeTo app bikeId loc) = Inr () \<and>
         (let app' = snd (moveBikeTo app bikeId loc) in
            latitude (location (bikeObj app' b)) = latitude loc \<and>
            longitude (location (bikeObj app' b)) = longitude loc \<and>
            bike_id (bikeObj app' b) = bike_id (bikeObj app b) \<and>
            rate (bikeObj app' b) = rate (bikeObj app b) \<and>
            available (bikeObj app' b) = available (bikeObj app b) \<and>
            (\<forall>a. a \<noteq> b \<longrightarrow> bikeObj app' a = bikeObj app a) \<and>
            users app' = users app \<and> bikes app' = bikes app \<and> rents app' = rents app \<and>
            userObj app' = userObj app \<and> rentRepo app' = rentRepo app)"
    using b by (intro bexI [of _ b]) (simp_all add: moveBikeTo_found Let_def)
next
  assume "\<forall>b\<in>set (bikes app). bike_id (bikeObj app b) \<noteq> Some bikeId"
  then show "moveBikeTo app bikeId loc = (Inl BikeNotFound, app)"
    by (simp add: moveBikeTo_def findBike_absent)
qed

text \<open>
  Moving bike-2 to (3, 4) leaves bike-1 as it was; moving the unknown bike-9 fails and
  changes nothing.
\<close>

theorem C8_moveBikeTo_frame_witness:
  "findBike demoRegistered ''bike-2'' = Inr 2 \<and>
   fst (moveBikeTo demoRegistered ''bike-2'' \<lparr>latitude = numOfInt 3, longitude = numOfInt 4\<rparr>) = Inr () \<and>
   location (bikeObj (snd (moveBikeTo demoRegistered ''bike-2'' \<lparr>latitude = numOfInt 3, longitude = numOfInt 4\<rparr>)) 2) =
     \<lparr>latitude = numOfInt 3, longitude = numOfInt 4\<rparr> \<and>
   bikeObj (snd (moveBikeTo demoRegistered ''bike-2'' \<lparr>latitude = numOfInt 3, longitude = numOfInt 4\<rparr>)) 0 =
     bikeObj demoRegistered 0 \<and>
   moveBikeTo demoRegistered ''bike-9'' \<lparr>latitude = numOfInt 3, longitude = numOfInt 4\<rparr> =
     (Inl BikeNotFound, demoRegistered)"
proof -
  have present: "\<exists>b\<in>set (bikes demoRegistered). bike_id (bikeObj demoRegistered b) = Some ''bike-2''"
    by (simp add: demoRegistered_fields)
  have absent: "\<forall>b\<in>set (bikes demoRegistered). bike_id (bikeObj demoRegistered b) \<noteq> Some ''bike-9''"
    by (simp add: demoRegistered_fields)
  have found: "findBike demoRegistered ''bike-2'' = Inr 2"
    by (simp add: findBike_def demoRegistered_fields)
  from C8_moveBikeTo_frame [of demoRegistered "''bike-2''" "\<lparr>latitude = numOfInt 3, longitude = numOfInt 4\<rparr>"] present found
  have moved: "fst (moveBikeTo demoRegistered ''bike-2'' \<lparr>latitude = numOfInt 3, longitude = numOfInt 4\<rparr>) = Inr ()"
    "latitude (location (bikeObj (snd (moveBikeTo demoRegistered ''bike-2'' \<lparr>latitude = numOfInt 3, longitude = numOfInt 4\<rparr>)) 2)) = numOfInt 3"
    "longitude (location (bikeObj (snd (moveBikeTo demoRegistered ''bike-2'' \<lparr>latitude = numOfInt 3, longitude = numOfInt 4\<rparr>)) 2)) = numOfInt 4"
    "bikeObj (snd (moveBikeTo demoRegistered ''bike-2'' \<lparr>latitude = numOfInt 3, longitude = numOfInt 4\<rparr>)) 0 =
       bikeObj demoRegistered 0"
    by (auto simp: Let_def)
  from C8_moveBikeTo_frame [of demoRegistered "''bike-9''" "\<lparr>latitude = numOfInt 3, longitude = numOfInt 4\<rparr>"] absent
  have missing: "moveBikeTo demoRegistered ''bike-9'' \<lparr>latitude = numOfInt 3, longitude = numOfInt 4\<rparr> =
     (Inl BikeNotFound, demoRegistered)"
    by blast
  from found moved missing show ?thesis
    by (simp add: Location.equality)
qed

section \<open>Registering a bike\<close>

lemma findBike_registerBike:
  assumes "\<forall>a\<in>set (bikes app). bike_id (bikeObj app a) \<noteq> Some newId"
  shows "findBike (snd (registerBike app b newId)) newId = Inr b"
proof -
  let ?app' = "snd (registerBike app b newId)"
  have app': "bikes ?app' = bikes app @ [b]"
    "bikeObj ?app' = (bikeObj app)(b := (bikeObj app b)\<lparr>bike_id := Some newId\<rparr>)"
    by (simp_all add: registerBike_def Let_def)
  have "find (\<lambda>a. bike_id (bikeObj ?app' a) = Some newId) (bikes app @ [b]) = Some b"
    using assms by (intro find_snoc_last) (auto simp: app'(2))
  then show ?thesis
    by (simp add: findBike_def app'(1))
qed

text \<open>
  C7. Round trip: when the identifier that \<open>registerBike\<close> draws is not the
  identifier of a bike of the collection (it is fresh, as \<open>crypto.randomUUID()\<close>
  promises), \<open>registerBike\<close> returns that identifier, \<open>getBikeById\<close> of it succeeds
  with the registered bike object, and that object has the rate, availability, latitude
  and longitude it was handed over with, and the new identifier.
\<close>

theorem C7_registerBike_roundtrip:
  "(\<forall>a\<in>set (bikes app). bike_id (bikeObj app a) \<noteq> Some newId) \<Longrightarrow>
   registerBike app b newId = (bid, app') \<Longrightarrow>
   bid = newId \<and> getBikeById app' bid = Inr b \<and>
   bike_id (bikeObj app' b) = Some bid \<and>
   rate (bikeObj app' b) = rate (bikeObj app b) \<and>
   available (bikeObj app' b) = available (bikeObj app b) \<and>
   latitude (location (bikeObj app' b)) = latitude (location (bikeObj app b)) \<and>
   longitude (location (bikeObj app' b)) = longitude (location (bikeObj app b))"
proof -
  assume fresh: "\<forall>a\<in>set (bikes app). bike_id (bikeObj app a) \<noteq> Some newId"
    and reg: "registerBike app b newId = (bid, app')"
  from reg have bid: "bid = newId"
    and app': "app' = app\<lparr>bikeObj := (bikeObj app)(b := (bikeObj app b)\<lparr>bike_id := Some newId\<rparr>),
                         bikes := bikes app @ [b]\<rparr>"
    by (auto simp: registerBike_def Let_def)
  have "find (\<lambda>a. bike_id (bikeObj app' a) = Some newId) (bikes app @ [b]) = Some b"
    using fresh by (intro find_snoc_last) (auto simp: app')
  then have "getBikeById app' bid = Inr b"
    by (simp add: getBikeById_def findBike_def bid) (simp add: app')
  then show ?thesis
    by (simp add: bid) (simp add: app')
qed

text \<open>
  Bike object 3 registered as \<open>bike-3\<close> after bike-1 and bike-2.
\<close>

theorem C7_registerBike_roundtrip_witness:
  "fst (registerBike demoRegistered 3 ''bike-3'') = ''bike-3'' \<and>
   getBikeById (snd (registerBike demoRegistered 3 ''bike-3'')) ''bike-3'' = Inr 3 \<and>
   bikeObj (snd (registerBike demoRegistered 3 ''bike-3'')) 3 =
     \<lparr>bike_id = Some ''bike-3'', rate = numOfInt 10, available = True,
      location = \<lparr>latitude = numOfInt 0, longitude = numOfInt 0\<rparr>\<rparr>"
proof -
  have fresh: "\<forall>a\<in>set (bikes demoRegistered). bike_id (bikeObj demoRegistered a) \<noteq> Some ''bike-3''"
    by (simp add: demoRegistered_fields)
  have reg: "registerBike demoRegistered 3 ''bike-3'' =
       (''bike-3'', snd (registerBike demoRegistered 3 ''bike-3''))"
    by (simp add: registerBike_def Let_def)
  have before: "bikeObj demoRegistered 3 =
     \<lparr>bike_id = None, rate = numOfInt 10, available = True, location = \<lparr>latitude = numOfInt 0, longitude = numOfInt 0\<rparr>\<rparr>"
    by (simp add: demoRegistered_fields demoBikes_def)
  have ret: "fst (registerBike demoRegistered 3 ''bike-3'') = ''bike-3''"
    by (simp add: registerBike_def Let_def)
  from C7_registerBike_roundtrip [OF fresh reg] before ret show ?thesis
    by (simp add: Bike.equality Location.equality)
qed

section \<open>Registering a user\<close>

text \<open>
  C5. When a user of the collection already has the email of the given user,
  \<open>registerUser\<close> fails with \<open>DuplicateUser\<close> and the state is unchanged (no stored
  object is modified, the collection is not extended). When none has it, \<open>registerUser\<close>
  returns the identifier it drew, the given user object carries that identifier and the
  hash of its former password, keeps its email, and is appended to the collection; every
  other user object and the rest of the state are unchanged; and when the identifier is
  not that of a stored user, the appended user is the only one that carries it.
\<close>

theorem C5_registerUser:
  "((\<exists>r\<in>set (users app). email (userObj app r) = email (userObj app u)) \<longrightarrow>
      registerUser app u newId encrypt = (Inl DuplicateUser, app)) \<and>
   ((\<forall>r\<in>set (users app). email (userObj app r) \<noteq> email (userObj app u)) \<longrightarrow>
      fst (registerUser app u newId encrypt) = Inr newId \<and>
      (let app' = snd (registerUser app u newId encrypt) in
         users app' = users app @ [u] \<and>
         user_id (userObj app' u) = Some newId \<and>
         password (userObj app' u) = encrypt (password (userObj app u)) \<and>
         email (userObj app' u) = email (userObj app u) \<and>
         (\<forall>r. r \<noteq> u \<longrightarrow> userObj app' r = userObj app r) \<and>
         bikes app' = bikes app \<and> rents app' = rents app \<and>
         bikeObj app' = bikeObj app \<and> rentRepo app' = rentRepo app \<and>
         ((\<forall>r\<in>set (users app). user_id (userObj app r) \<noteq> Some newId) \<longrightarrow>
            (\<forall>r\<in>set (users app'). user_id (userObj app' r) = Some newId \<longrightarrow> r = u))))"
  by (auto simp: registerUser_def Let_def)

text \<open>
  A second Bob is refused; Ana is registered in the registry with nothing in it.
\<close>

theorem C5_registerUser_witness:
  "registerUser demoRegistered 5 ''user-3'' demoEncrypt = (Inl DuplicateUser, demoRegistered) \<and>
   fst (registerUser emptyApp 0 ''user-1'' demoEncrypt) = Inr ''user-1'' \<and>
   users (snd (registerUser emptyApp 0 ''user-1'' demoEncrypt)) = [0] \<and>
   userObj (snd (registerUser emptyApp 0 ''user-1'' demoEncrypt)) 0 =
     \<lparr>user_id = Some ''user-1'', email = ''ana@example.com'', password = ''hash:secret''\<rparr>"
proof -
  have dup: "\<exists>r\<in>set (users demoRegistered).
      email (userObj demoRegistered r) = email (userObj demoRegistered 5)"
    by (simp add: demoRegistered_fields demoUsers_def)
  have new: "\<forall>r\<in>set (users emptyApp). email (userObj emptyApp r) \<noteq> email (userObj emptyApp 0)"
    by (simp add: emptyApp_def)
  have before: "userObj emptyApp 0 =
      \<lparr>user_id = None, email = ''ana@example.com'', password = ''secret''\<rparr>" "users emptyApp = []"
    by (simp_all add: emptyApp_def demoUsers_def)
  from C5_registerUser [of demoRegistered 5 "''user-3''" demoEncrypt] dup
  have first: "registerUser demoRegistered 5 ''user-3'' demoEncrypt = (Inl DuplicateUser, demoRegistered)"
    by blast
  from C5_registerUser [of emptyApp 0 "''user-1''" demoEncrypt] new before
  have second: "fst (registerUser emptyApp 0 ''user-1'' demoEncrypt) = Inr ''user-1''"
    "users (snd (registerUser emptyApp 0 ''user-1'' demoEncrypt)) = [0]"
    "userObj (snd (registerUser emptyApp 0 ''user-1'' demoEncrypt)) 0 =
       \<lparr>user_id = Some ''user-1'', email = ''ana@example.com'', password = ''hash:secret''\<rparr>"
    by (simp_all add: Let_def User.equality demoEncrypt_def)
  from first second show ?thesis by simp
qed

section \<open>Removing a user\<close>

text \<open>
  C4, as stated, asks for \<open>UserNotFound\<close> when no user has the email. In the registry
  with nothing in it, removing Carl fails with \<open>UserDoesNotExist\<close> instead.
\<close>

theorem C4_removeUser_absent_counterexample:
  "getUserByEmail emptyApp ''carl@example.com'' = None \<and>
   fst (removeUser emptyApp ''carl@example.com'') \<noteq> Inl UserNotFound \<and>
   fst (removeUser emptyApp ''carl@example.com'') = Inl UserDoesNotExist"
  by (simp add: getUserByEmail_def removeUser_def emptyApp_def)

text \<open>
  C4, amended. When no user of the collection has the email, \<open>removeUser\<close> fails with
  \<open>UserDoesNotExist\<close> and leaves the state unchanged, whatever the rent-lookup
  collaborator would report (it is not asked). \<open>removeUser\<close> raises
  \<open>UserDoesNotExist\<close> exactly when no user has the email, and never raises
  \<open>UserNotFound\<close>.
\<close>

theorem C4_removeUser_absent:
  "((\<forall>u\<in>set (users app). email (userObj app u) \<noteq> e) \<longrightarrow>
      removeUser app e = (Inl UserDoesNotExist, app) \<and>
      (\<forall>repo. removeUser (app\<lparr>rentRepo := repo\<rparr>) e =
         (Inl UserDoesNotExist, app\<lparr>rentRepo := repo\<rparr>))) \<and>
   (fst (removeUser app e) = Inl UserDoesNotExist \<longleftrightarrow>
      (\<forall>u\<in>set (users app). email (userObj app u) \<noteq> e)) \<and>
   fst (removeUser app e) \<noteq> Inl UserNotFound"
proof -
  have none: "findIndex (\<lambda>u. email (userObj app u) = e) (users app) = None \<longleftrightarrow>
      (\<forall>u\<in>set (users app). email (userObj app u) \<noteq> e)"
    by (simp add: findIndex_None)
  show ?thesis
    by (cases "findIndex (\<lambda>u. email (userObj app u) = e) (users app)")
      (use none in \<open>auto simp: removeUser_def Let_def\<close>)
qed

text \<open>
  Carl is not registered and Ana is.
\<close>

theorem C4_removeUser_absent_witness:
  "removeUser demoRegistered ''carl@example.com'' = (Inl UserDoesNotExist, demoRegistered) \<and>
   fst (removeUser demoRegistered ''ana@example.com'') \<noteq> Inl UserDoesNotExist"
proof -
  have absent: "\<forall>u\<in>set (users demoRegistered). email (userObj demoRegistered u) \<noteq> ''carl@example.com''"
    by (simp add: demoRegistered_fields)
  have present: "\<not> (\<forall>u\<in>set (users demoRegistered). email (userObj demoRegistered u) \<noteq> ''ana@example.com'')"
    by (simp add: demoRegistered_fields)
  from C4_removeUser_absent [of demoRegistered "''carl@example.com''"] absent
  have first: "removeUser demoRegistered ''carl@example.com'' = (Inl UserDoesNotExist, demoRegistered)"
    by blast
  from C4_removeUser_absent [of demoRegistered "''ana@example.com''"] present
  have second: "fst (removeUser demoRegistered ''ana@example.com'') \<noteq> Inl UserDoesNotExist"
    by blast
  from first second show ?thesis by simp
qed

lemma distinct_map_removed:
  assumes "distinct (map f xs)" and "i < length xs" and "x \<in> set (take i xs @ drop (Suc i) xs)"
  shows "f x \<noteq> f (xs ! i)"
proof -
  have "xs = take i xs @ xs ! i # drop (Suc i) xs"
    using assms(2) by (rule id_take_nth_drop)
  then have "distinct (map f (take i xs) @ f (xs ! i) # map f (drop (Suc i) xs))"
    using assms(1) by (metis list.simps(9) map_append)
  then have "f (xs ! i) \<notin> f ` set (take i xs)" "f (xs ! i) \<notin> f ` set (drop (Suc i) xs)"
    by simp_all
  with assms(3) show ?thesis
    by (metis Un_iff imageI set_append)
qed

text \<open>
  C3. When a user of the collection has the email, \<open>removeUser\<close> fails with
  \<open>UserHasOpenRents\<close> if and only if the rent-lookup collaborator reports at least one
  open rent for the email, and then the state is unchanged. Otherwise it succeeds and
  removes the first user with that email from the collection, changing nothing else; and
  when no two users share an email, no user listed by \<open>listUsers\<close> afterwards has
  the email.
\<close>

theorem C3_removeUser:
  assumes "\<exists>u\<in>set (users app). email (userObj app u) = e"
  shows "(fst (removeUser app e) = Inl UserHasOpenRents \<longleftrightarrow> rentRepo app e \<noteq> []) \<and>
    (rentRepo app e \<noteq> [] \<longrightarrow> snd (removeUser app e) = app) \<and>
    (rentRepo app e = [] \<longrightarrow>
       (\<exists>i<length (users app).
          email (userObj app (users app ! i)) = e \<and>
          (\<forall>j<i. email (userObj app (users app ! j)) \<noteq> e) \<and>
          removeUser app e =
            (Inr (), app\<lparr>users := take i (users app) @ drop (Suc i) (users app)\<rparr>)) \<and>
       (emailsUnique app \<longrightarrow>
          (\<forall>u\<in>set (listUsers (snd (removeUser app e))).
             email (userObj (snd (removeUser app e)) u) \<noteq> e)))"
proof -
  from assms have "findIndex (\<lambda>u. email (userObj app u) = e) (users app) \<noteq> None"
    by (simp add: findIndex_None)
  then obtain i where i: "findIndex (\<lambda>u. email (userObj app u) = e) (users app) = Some i"
    by blast
  from findIndex_Some [OF i]
  have props: "i < length (users app)" "email (userObj app (users app ! i)) = e"
    "\<forall>j<i. email (userObj app (users app ! j)) \<noteq> e"
    by simp_all
  have full: "removeUser app e = (Inl UserHasOpenRents, app)" if "rentRepo app e \<noteq> []"
    using that i by (simp add: removeUser_def)
  have gone: "removeUser app e =
      (Inr (), app\<lparr>users := take i (users app) @ drop (Suc i) (users app)\<rparr>)"
    if "rentRepo app e = []"
    using that i by (simp add: removeUser_def splice1_def)
  have absent: "email (userObj (snd (removeUser app e)) u) \<noteq> e"
    if "rentRepo app e = []" "emailsUnique app" "u \<in> set (listUsers (snd (removeUser app e)))" for u
  proof -
    from that(3) gone [OF that(1)]
    have "u \<in> set (take i (users app) @ drop (Suc i) (users app))"
      by (simp add: listUsers_def)
    from distinct_map_removed [OF _ props(1) this, of "\<lambda>u. email (userObj app u)"] that(2)
    show ?thesis
      by (simp add: emailsUnique_def props(2) gone [OF that(1)])
  qed
  show ?thesis
  proof (cases "rentRepo app e = []")
    case True
    with gone props absent show ?thesis by auto
  next
    case False
    with full show ?thesis by simp
  qed
qed

text \<open>
  Ana is removed when the collaborator reports nothing, and kept when it reports an
  open rent.
\<close>

theorem C3_removeUser_witness:
  "removeUser demoRegistered ''ana@example.com'' = (Inr (), demoRegistered\<lparr>users := [1]\<rparr>) \<and>
   email (userObj (snd (removeUser demoRegistered ''ana@example.com'')) 1) \<noteq> ''ana@example.com'' \<and>
   removeUser (demoRegistered\<lparr>rentRepo := \<lambda>e. [\<lparr>bike = 0, user = 0, start = 0, end_date = None\<rparr>]\<rparr>)
       ''ana@example.com'' =
     (Inl UserHasOpenRents,
      demoRegistered\<lparr>rentRepo := \<lambda>e. [\<lparr>bike = 0, user = 0, start = 0, end_date = None\<rparr>]\<rparr>)"
proof -
  let ?busy = "demoRegistered\<lparr>rentRepo := \<lambda>e. [\<lparr>bike = 0, user = 0, start = 0, end_date = None\<rparr>]\<rparr>"
  have present: "\<exists>u\<in>set (users demoRegistered). email (userObj demoRegistered u) = ''ana@example.com''"
    by (simp add: demoRegistered_fields)
  have present': "\<exists>u\<in>set (users ?busy). email (userObj ?busy u) = ''ana@example.com''"
    by (simp add: demoRegistered_fields)
  have unique: "emailsUnique demoRegistered"
    by (simp add: emailsUnique_def demoRegistered_fields)
  have norents: "rentRepo demoRegistered ''ana@example.com'' = []"
    by (simp add: demoRegistered_fields)
  from C3_removeUser [OF present] norents
  obtain i where i: "i < length (users demoRegistered)"
      "email (userObj demoRegistered (users demoRegistered ! i)) = ''ana@example.com''"
      "removeUser demoRegistered ''ana@example.com'' =
         (Inr (), demoRegistered\<lparr>users := take i (users demoRegistered) @ drop (Suc i) (users demoRegistered)\<rparr>)"
    by blast
  from i(1,2) have "i = 0"
    by (cases i) (simp_all add: demoRegistered_fields)
  with i(3) have first: "removeUser demoRegistered ''ana@example.com'' = (Inr (), demoRegistered\<lparr>users := [1]\<rparr>)"
    by (simp add: demoRegistered_fields)
  from C3_removeUser [OF present] norents unique
  have "\<forall>u\<in>set (listUsers (snd (removeUser demoRegistered ''ana@example.com''))).
      email (userObj (snd (removeUser demoRegistered ''ana@example.com'')) u) \<noteq> ''ana@example.com''"
    by blast
  then have second:
    "email (userObj (snd (removeUser demoRegistered ''ana@example.com'')) 1) \<noteq> ''ana@example.com''"
    by (simp add: first listUsers_def)
  from C3_removeUser [OF present']
  have "fst (removeUser ?busy ''ana@example.com'') = Inl UserHasOpenRents"
    "snd (removeUser ?busy ''ana@example.com'') = ?busy"
    by simp_all
  then have third: "removeUser ?busy ''ana@example.com'' = (Inl UserHasOpenRents, ?busy)"
    by (simp add: prod_eq_iff)
  from first second third show ?thesis
    by simp
qed

section \<open>Returning a bike\<close>

text \<open>
  C2. When some rent of the collection matches the bike identifier and the user email
  and has no end, \<open>returnBike\<close> takes the first such rent, sets its end to the current
  time, sets the availability flag of the bike it references, and returns
  \<open>hours * rate\<close> of that bike, where \<open>hours\<close> is the absolute value of
  \<open>end - start\<close> in seconds (the milliseconds divided by 1000) divided by 3600, every
  operation being the one of JavaScript numbers: a fraction, not rounded down to whole
  hours. Taking the absolute value before the division by 3600 gives the same number.
  Every other rent and bike object, the users and the bike collection are unchanged.
\<close>

theorem C2_returnBike:
  assumes "\<exists>r\<in>set (rents app).
      bike_id (bikeObj app (bike r)) = Some bikeId \<and>
      email (userObj app (user r)) = userEmail \<and> end_date r = None"
  shows "\<exists>i<length (rents app).
      rentMatches app bikeId userEmail (rents app ! i) \<and>
      (\<forall>j<i. \<not> rentMatches app bikeId userEmail (rents app ! j)) \<and>
      (let r = rents app ! i; app' = snd (returnBike app bikeId userEmail now);
           seconds = numDiv (numSub (getTime now) (getTime (start r))) (numOfInt 1000);
           hours = mathAbs (numDiv seconds (numOfInt 3600)) in
         fst (returnBike app bikeId userEmail now) =
           Inr (numMul hours (rate (bikeObj app (bike r)))) \<and>
         hours = numDiv (mathAbs seconds) (numOfInt 3600) \<and>
         rents app' = (rents app)[i := r\<lparr>end_date := Some now\<rparr>] \<and>
         end_date (rents app' ! i) = Some now \<and>
         bikeObj app' = (bikeObj app)(bike r := (bikeObj app (bike r))\<lparr>available := True\<rparr>) \<and>
         available (bikeObj app' (bike r)) \<and>
         users app' = users app \<and> bikes app' = bikes app \<and>
         userObj app' = userObj app \<and> rentRepo app' = rentRepo app)"
proof -
  from assms have "\<exists>r\<in>set (rents app). rentMatches app bikeId userEmail r"
    by (simp add: rentMatches_def)
  then have "findIndex (rentMatches app bikeId userEmail) (rents app) \<noteq> None"
    by (simp add: findIndex_None)
  then obtain i where i: "findIndex (rentMatches app bikeId userEmail) (rents app) = Some i"
    by blast
  from findIndex_Some [OF i]
  have props: "i < length (rents app)" "rentMatches app bikeId userEmail (rents app ! i)"
    "\<forall>j<i. \<not> rentMatches app bikeId userEmail (rents app ! j)"
    by simp_all
  have "let r = rents app ! i; app' = snd (returnBike app bikeId userEmail now);
           seconds = numDiv (numSub (getTime now) (getTime (start r))) (numOfInt 1000);
           hours = mathAbs (numDiv seconds (numOfInt 3600)) in
         fst (returnBike app bikeId userEmail now) =
           Inr (numMul hours (rate (bikeObj app (bike r)))) \<and>
         hours = numDiv (mathAbs seconds) (numOfInt 3600) \<and>
         rents app' = (rents app)[i := r\<lparr>end_date := Some now\<rparr>] \<and>
         end_date (rents app' ! i) = Some now \<and>
         bikeObj app' = (bikeObj app)(bike r := (bikeObj app (bike r))\<lparr>available := True\<rparr>) \<and>
         available (bikeObj app' (bike r)) \<and>
         users app' = users app \<and> bikes app' = bikes app \<and>
         userObj app' = userObj app \<and> rentRepo app' = rentRepo app"
    using i props(1)
    by (simp add: returnBike_def Let_def diffHours_def sixty_times_sixty mathAbs_numDiv_3600)
  with props show ?thesis
    by blast
qed

text \<open>Rate 10, rented at time 0 and returned after 2 h 30 min (9000000 ms): the fee is 25.\<close>

theorem C2_returnBike_witness:
  "rents demoRented = [\<lparr>bike = 0, user = 0, start = 0, end_date = None\<rparr>] \<and>
   rate (bikeObj demoRented 0) = numOfInt 10 \<and>
   fst (returnBike demoRented ''bike-1'' ''ana@example.com'' 9000000) = Inr (numOfInt 25) \<and>
   numOfInt 25 = Finite False 7036874417766400 (- 48) \<and>
   valueOf False 7036874417766400 (- 48) = 25 \<and>
   rents (snd (returnBike demoRented ''bike-1'' ''ana@example.com'' 9000000)) =
     [\<lparr>bike = 0, user = 0, start = 0, end_date = Some 9000000\<rparr>] \<and>
   available (bikeObj (snd (returnBike demoRented ''bike-1'' ''ana@example.com'' 9000000)) 0)"
proof -
  have "\<exists>r\<in>set (rents demoRented).
      bike_id (bikeObj demoRented (bike r)) = Some ''bike-1'' \<and>
      email (userObj demoRented (user r)) = ''ana@example.com'' \<and> end_date r = None"
    by (simp add: demoRented_fields demoRegistered_fields)
  from C2_returnBike [OF this, of 9000000]
  have "fst (returnBike demoRented ''bike-1'' ''ana@example.com'' 9000000) = Inr (numOfInt 25)"
    "rents (snd (returnBike demoRented ''bike-1'' ''ana@example.com'' 9000000)) =
       [\<lparr>bike = 0, user = 0, start = 0, end_date = Some 9000000\<rparr>]"
    "available (bikeObj (snd (returnBike demoRented ''bike-1'' ''ana@example.com'' 9000000)) 0)"
    by (simp_all add: demoRented_fields demoRegistered_fields Let_def fee_two_and_a_half_hours)
  moreover have "valueOf False 7036874417766400 (- 48) = 25"
    by (simp add: valueOf_def)
  ultimately show ?thesis
    by (simp add: demoRented_fields demoRegistered_fields numOfInt_25)
qed

section \<open>The coupling of availability and open rents\<close>

lemma hasOpenRent_nth:
  "hasOpenRent app b \<longleftrightarrow>
     (\<exists>i<length (rents app). bike (rents app ! i) = b \<and> end_date (rents app ! i) = None)"
  unfolding hasOpenRent_def by (metis in_set_conv_nth)

lemma rentBike_cases:
  obtains (unchanged) "snd (rentBike app bikeId e now) = app"
  | (rented) b u where "b \<in> set (bikes app)" "available (bikeObj app b)"
      "snd (rentBike app bikeId e now) =
         app\<lparr>bikeObj := (bikeObj app)(b := (bikeObj app b)\<lparr>available := False\<rparr>),
             rents := rents app @ [\<lparr>bike = b, user = u, start = now, end_date = None\<rparr>]\<rparr>"
proof (cases "findBike app bikeId")
  case (Inl err)
  then show ?thesis by (intro unchanged) (simp add: rentBike_def)
next
  case b: (Inr b)
  show ?thesis
  proof (cases "available (bikeObj app b)")
    case False
    with b show ?thesis by (intro unchanged) (simp add: rentBike_def)
  next
    case True
    show ?thesis
    proof (cases "findUser app e")
      case (Inl err)
      with b True show ?thesis by (intro unchanged) (simp add: rentBike_def)
    next
      case (Inr u)
      with b True findBike_Inr [OF b] show ?thesis
        by (intro rented [of b u]) (simp_all add: rentBike_def Let_def)
    qed
  qed
qed

lemma returnBike_cases:
  obtains (unchanged) "snd (returnBike app bikeId e now) = app"
  | (returned) i where "i < length (rents app)" "end_date (rents app ! i) = None"
      "snd (returnBike app bikeId e now) =
         app\<lparr>rents := (rents app)[i := (rents app ! i)\<lparr>end_date := Some now\<rparr>],
             bikeObj := (bikeObj app)(bike (rents app ! i) :=
               (bikeObj app (bike (rents app ! i)))\<lparr>available := True\<rparr>)\<rparr>"
proof (cases "findIndex (rentMatches app bikeId e) (rents app)")
  case None
  then show ?thesis by (intro unchanged) (simp add: returnBike_def)
next
  case (Some i)
  from findIndex_Some [OF Some] have "i < length (rents app)" "end_date (rents app ! i) = None"
    by (simp_all add: rentMatches_def)
  with Some show ?thesis
    by (intro returned [of i]) (simp_all add: returnBike_def Let_def)
qed

lemma inv_empty: "bikes app = [] \<Longrightarrow> rents app = [] \<Longrightarrow> rentalInvariant app"
  by (simp add: rentalInvariant_def availabilityCoupled_def rentsWellFormed_def)

lemma inv_registerUser: "rentalInvariant app \<Longrightarrow> rentalInvariant (snd (registerUser app u newId encrypt))"
  by (simp add: rentalInvariant_def availabilityCoupled_def rentsWellFormed_def hasOpenRent_def
      registerUser_def Let_def)

lemma inv_removeUser: "rentalInvariant app \<Longrightarrow> rentalInvariant (snd (removeUser app e))"
  by (simp add: rentalInvariant_def availabilityCoupled_def rentsWellFormed_def hasOpenRent_def
      removeUser_def Let_def split: option.splits)

lemma inv_moveBikeTo: "rentalInvariant app \<Longrightarrow> rentalInvariant (snd (moveBikeTo app bikeId loc))"
  by (simp add: rentalInvariant_def availabilityCoupled_def rentsWellFormed_def hasOpenRent_def
      moveBikeTo_def Let_def split: sum.splits)

lemma inv_registerBike:
  assumes "rentalInvariant app" and "available (bikeObj app b) \<or> b \<in> set (bikes app)"
  shows "rentalInvariant (snd (registerBike app b newId))"
proof -
  from assms(1) have coupled: "availabilityCoupled app" and wf: "rentsWellFormed app"
    by (simp_all add: rentalInvariant_def)
  have new: "\<not> available (bikeObj app b) \<longleftrightarrow> hasOpenRent app b"
  proof (cases "b \<in> set (bikes app)")
    case True
    with coupled show ?thesis by (simp add: availabilityCoupled_def)
  next
    case False
    with wf have "\<not> hasOpenRent app b"
      by (auto simp: rentsWellFormed_def hasOpenRent_def)
    with False assms(2) show ?thesis by simp
  qed
  have "availabilityCoupled (snd (registerBike app b newId))"
    using coupled new
    by (auto simp: availabilityCoupled_def hasOpenRent_def registerBike_def Let_def)
  moreover have "rentsWellFormed (snd (registerBike app b newId))"
    using wf by (simp add: rentsWellFormed_def registerBike_def Let_def)
  ultimately show ?thesis by (simp add: rentalInvariant_def)
qed

lemma inv_rentBike:
  assumes "rentalInvariant app"
  shows "rentalInvariant (snd (rentBike app bikeId e now))"
proof (cases rule: rentBike_cases [of app bikeId e now])
  case unchanged
  with assms show ?thesis by simp
next
  case (rented b u)
  from assms have coupled: "availabilityCoupled app" and wf: "rentsWellFormed app"
    by (simp_all add: rentalInvariant_def)
  from coupled rented(1,2) have free: "\<not> hasOpenRent app b"
    by (auto simp: availabilityCoupled_def)
  let ?app' = "snd (rentBike app bikeId e now)"
  have "availabilityCoupled ?app'"
    using coupled by (auto simp: rented(3) availabilityCoupled_def hasOpenRent_def)
  moreover have "\<forall>r\<in>set (rents ?app'). bike r \<in> set (bikes ?app')"
    using wf rented(1) by (auto simp: rented(3) rentsWellFormed_def)
  moreover have "i = j"
    if "i < length (rents ?app')" "j < length (rents ?app')"
      "end_date (rents ?app' ! i) = None" "end_date (rents ?app' ! j) = None"
      "bike (rents ?app' ! i) = bike (rents ?app' ! j)" for i j
  proof -
    from that(1,2) have bound: "i < Suc (length (rents app))" "j < Suc (length (rents app))"
      by (simp_all add: rented(3))
    consider "i < length (rents app)" "j < length (rents app)"
      | "i = length (rents app)" "j < length (rents app)"
      | "i < length (rents app)" "j = length (rents app)"
      | "i = length (rents app)" "j = length (rents app)"
      using bound by (auto simp: less_Suc_eq)
    then show ?thesis
    proof cases
      case 1
      with that(3-5) wf show ?thesis
        by (simp add: rented(3) nth_append rentsWellFormed_def)
    next
      case 2
      with that(3-5) free show ?thesis
        by (auto simp: rented(3) nth_append hasOpenRent_nth)
    next
      case 3
      with that(3-5) free show ?thesis
        by (auto simp: rented(3) nth_append hasOpenRent_nth)
    next
      case 4
      then show ?thesis by simp
    qed
  qed
  ultimately show ?thesis
    by (simp add: rentalInvariant_def rentsWellFormed_def)
qed

lemma inv_returnBike:
  assumes "rentalInvariant app"
  shows "rentalInvariant (snd (returnBike app bikeId e now))"
proof (cases rule: returnBike_cases [of app bikeId e now])
  case unchanged
  with assms show ?thesis by simp
next
  case (returned i)
  from assms have coupled: "availabilityCoupled app" and wf: "rentsWellFormed app"
    by (simp_all add: rentalInvariant_def)
  let ?app' = "snd (returnBike app bikeId e now)"
  let ?b = "bike (rents app ! i)"
  have len: "length (rents ?app') = length (rents app)"
    by (simp add: returned(3))
  have nth_other: "rents ?app' ! j = rents app ! j" if "j \<noteq> i" for j
    using that by (simp add: returned(3))
  have nth_same: "end_date (rents ?app' ! i) = Some now" "bike (rents ?app' ! i) = ?b"
    using returned(1) by (simp_all add: returned(3))
  have bike_same: "bike (rents ?app' ! j) = bike (rents app ! j)" if "j < length (rents app)" for j
    using that returned(1) by (cases "j = i") (simp_all add: returned(3))
  have open_old: "end_date (rents app ! j) = None \<and> j \<noteq> i"
    if "j < length (rents app)" "end_date (rents ?app' ! j) = None" for j
    using that nth_same(1) nth_other [of j] by (cases "j = i") auto
  have open_iff: "hasOpenRent ?app' a \<longleftrightarrow> hasOpenRent app a" if "a \<noteq> ?b" for a
  proof
    assume "hasOpenRent ?app' a"
    then obtain j where j: "j < length (rents app)" "bike (rents ?app' ! j) = a"
        "end_date (rents ?app' ! j) = None"
      by (auto simp: hasOpenRent_nth len)
    from open_old [OF j(1,3)] j(1,2) bike_same [OF j(1)] show "hasOpenRent app a"
      by (auto simp: hasOpenRent_nth)
  next
    assume "hasOpenRent app a"
    then obtain j where j: "j < length (rents app)" "bike (rents app ! j) = a"
        "end_date (rents app ! j) = None"
      by (auto simp: hasOpenRent_nth)
    with that have "j \<noteq> i" by auto
    with j nth_other [of j] show "hasOpenRent ?app' a"
      by (auto simp: hasOpenRent_nth len)
  qed
  have closed: "\<not> hasOpenRent ?app' ?b"
  proof
    assume "hasOpenRent ?app' ?b"
    then obtain j where j: "j < length (rents app)" "bike (rents ?app' ! j) = ?b"
        "end_date (rents ?app' ! j) = None"
      by (auto simp: hasOpenRent_nth len)
    from open_old [OF j(1,3)] have "end_date (rents app ! j) = None" "j \<noteq> i"
      by simp_all
    moreover from j(2) bike_same [OF j(1)] have "bike (rents app ! j) = ?b"
      by simp
    ultimately show False
      using wf returned(1,2) j(1) by (auto simp: rentsWellFormed_def)
  qed
  have "availabilityCoupled ?app'"
    unfolding availabilityCoupled_def
  proof
    fix a
    assume "a \<in> set (bikes ?app')"
    then have a: "a \<in> set (bikes app)"
      by (simp add: returned(3))
    show "\<not> available (bikeObj ?app' a) \<longleftrightarrow> hasOpenRent ?app' a"
    proof (cases "a = ?b")
      case True
      with closed show ?thesis by (simp add: returned(3))
    next
      case False
      with open_iff [OF False] coupled a show ?thesis
        by (simp add: returned(3) availabilityCoupled_def)
    qed
  qed
  moreover have "\<forall>r\<in>set (rents ?app'). bike r \<in> set (bikes ?app')"
  proof
    fix r
    assume "r \<in> set (rents ?app')"
    then obtain j where j: "j < length (rents app)" "r = rents ?app' ! j"
      by (auto simp: in_set_conv_nth len)
    with bike_same [OF j(1)] wf show "bike r \<in> set (bikes ?app')"
      by (simp add: returned(3) rentsWellFormed_def del: nth_list_update)
  qed
  moreover have "j = k"
    if "j < length (rents ?app')" "k < length (rents ?app')"
      "end_date (rents ?app' ! j) = None" "end_date (rents ?app' ! k) = None"
      "bike (rents ?app' ! j) = bike (rents ?app' ! k)" for j k
  proof -
    from that(1,2) have jk: "j < length (rents app)" "k < length (rents app)"
      by (simp_all add: len)
    from open_old [OF jk(1) that(3)] open_old [OF jk(2) that(4)]
      bike_same [OF jk(1)] bike_same [OF jk(2)] that(5) jk wf
    show ?thesis
      by (simp add: rentsWellFormed_def)
  qed
  ultimately show ?thesis
    by (simp add: rentalInvariant_def rentsWellFormed_def)
qed

lemma inv_exec: "rentalInvariant app \<Longrightarrow> registersAvailable app c \<Longrightarrow> rentalInvariant (exec app c)"
  by (cases c)
    (simp_all add: inv_registerUser inv_registerBike inv_removeUser inv_rentBike
      inv_returnBike inv_moveBikeTo)

lemma reachable_rentalInvariant: "reachable registersAvailable app \<Longrightarrow> rentalInvariant app"
  by (induction rule: reachable.induct) (simp_all add: inv_empty inv_exec)

text \<open>
  C1, as stated, is about every state reachable by the operations. But \<open>registerBike\<close>
  stores the object it is given with the flag it has: bike object 1, built with its
  availability flag off, is in the collection after one call, unavailable, with no rent
  at all.
\<close>

theorem C1_availability_coupled_counterexample:
  "reachable anyCall (exec emptyApp (RegisterBike 1 ''bike-1'')) \<and>
   reachable freshIds (exec emptyApp (RegisterBike 1 ''bike-1'')) \<and>
   bikes (exec emptyApp (RegisterBike 1 ''bike-1'')) = [1] \<and>
   rents (exec emptyApp (RegisterBike 1 ''bike-1'')) = [] \<and>
   \<not> available (bikeObj (exec emptyApp (RegisterBike 1 ''bike-1'')) 1) \<and>
   \<not> availabilityCoupled (exec emptyApp (RegisterBike 1 ''bike-1''))"
proof -
  have start: "users emptyApp = []" "bikes emptyApp = []" "rents emptyApp = []"
    by (simp_all add: emptyApp_def)
  have "reachable anyCall (exec emptyApp (RegisterBike 1 ''bike-1''))"
    by (rule reachable.step [OF reachable.empty [OF start]]) (simp add: anyCall_def)
  moreover have "reachable freshIds (exec emptyApp (RegisterBike 1 ''bike-1''))"
    by (rule reachable.step [OF reachable.empty [OF start]]) (simp add: start)
  moreover have "bikes (exec emptyApp (RegisterBike 1 ''bike-1'')) = [1]"
    "rents (exec emptyApp (RegisterBike 1 ''bike-1'')) = []"
    "\<not> available (bikeObj (exec emptyApp (RegisterBike 1 ''bike-1'')) 1)"
    by (simp_all add: registerBike_def Let_def emptyApp_def demoBikes_def)
  moreover from this have "\<not> availabilityCoupled (exec emptyApp (RegisterBike 1 ''bike-1''))"
    by (simp add: availabilityCoupled_def hasOpenRent_def)
  ultimately show ?thesis by simp
qed

text \<open>
  C1, amended. In every state reachable from an empty registry by the six operations,
  where each bike object handed to \<open>registerBike\<close> has its availability flag set or is
  in the collection already, the availability flag of a bike of the collection is false
  if and only if some rent of the collection references that bike and has no end.
\<close>

theorem C1_availability_coupled:
  "reachable registersAvailable app \<Longrightarrow> availabilityCoupled app"
  using reachable_rentalInvariant [of app] by (simp add: rentalInvariant_def)

text \<open>
  After Ana rented bike-1: bike-1 is unavailable and has an open rent, bike-2 is
  available and has none.
\<close>

theorem C1_availability_coupled_witness:
  "reachable registersAvailable demoRented \<and> availabilityCoupled demoRented \<and>
   \<not> available (bikeObj demoRented 0) \<and> hasOpenRent demoRented 0 \<and>
   available (bikeObj demoRented 2) \<and> \<not> hasOpenRent demoRented 2"
proof -
  have start: "users emptyApp = []" "bikes emptyApp = []" "rents emptyApp = []"
    by (simp_all add: emptyApp_def)
  have reach: "reachable registersAvailable demoRented"
    unfolding demoRented_def demoRegistered_def
    by (intro reachable.step reachable.empty start)
      (simp_all add: registerUser_def registerBike_def Let_def emptyApp_def demoBikes_def)
  from C1_availability_coupled [OF reach] reach show ?thesis
    by (simp add: hasOpenRent_def demoRented_fields demoRegistered_fields)
qed

section \<open>Identifiers of bikes and emails of users in reachable states\<close>

lemma findBike_unique:
  assumes "bikeIdsUnique app" and "a \<in> set (bikes app)" and "bike_id (bikeObj app a) = Some i"
  shows "findBike app i = Inr a"
proof -
  from assms(2,3) have "\<exists>b\<in>set (bikes app). bike_id (bikeObj app b) = Some i"
    by blast
  from findBike_present [OF this]
  obtain b where b: "b \<in> set (bikes app)" "bike_id (bikeObj app b) = Some i"
    "findBike app i = Inr b"
    by blast
  with assms have "b = a"
    by (simp add: bikeIdsUnique_def)
  with b(3) show ?thesis by simp
qed

lemma rentBike_unavailable:
  "findBike app i = Inr a \<Longrightarrow> \<not> available (bikeObj app a) \<Longrightarrow>
   rentBike app i e t = (Inl UnavailableBike, app)"
  by (simp add: rentBike_def)

lemma bikeIdsUnique_same:
  assumes "bikes app' = bikes app" and "\<And>a. bike_id (bikeObj app' a) = bike_id (bikeObj app a)"
  shows "bikeIdsUnique app' = bikeIdsUnique app"
  by (simp add: bikeIdsUnique_def assms)

lemma bikeIdsUnique_registerBike:
  assumes "bikeIdsUnique app"
    and fresh: "\<forall>a\<in>set (bikes app). bike_id (bikeObj app a) \<noteq> Some newId"
  shows "bikeIdsUnique (snd (registerBike app b newId))"
proof -
  let ?app' = "snd (registerBike app b newId)"
  have bs: "set (bikes ?app') = insert b (set (bikes app))"
    by (simp add: registerBike_def Let_def)
  have ids: "bike_id (bikeObj ?app' a) = (if a = b then Some newId else bike_id (bikeObj app a))"
    for a
    by (simp add: registerBike_def Let_def)
  from assms(1) have some: "\<forall>a\<in>set (bikes app). bike_id (bikeObj app a) \<noteq> None"
    and uniq: "\<And>a c. a \<in> set (bikes app) \<Longrightarrow> c \<in> set (bikes app) \<Longrightarrow>
        bike_id (bikeObj app a) = bike_id (bikeObj app c) \<Longrightarrow> a = c"
    by (simp_all add: bikeIdsUnique_def)
  have "bike_id (bikeObj ?app' a) \<noteq> None" if "a \<in> set (bikes ?app')" for a
    using that some by (cases "a = b") (simp_all add: ids bs)
  moreover have "a = c"
    if "a \<in> set (bikes ?app')" "c \<in> set (bikes ?app')"
      "bike_id (bikeObj ?app' a) = bike_id (bikeObj ?app' c)" for a c
  proof (cases "a = b")
    case True
    show ?thesis
    proof (cases "c = b")
      case True
      with \<open>a = b\<close> show ?thesis by simp
    next
      case False
      with that(2) have "c \<in> set (bikes app)" by (simp add: bs)
      with fresh have "bike_id (bikeObj app c) \<noteq> Some newId" by blast
      with that(3) True False show ?thesis by (simp add: ids)
    qed
  next
    case False
    with that(1) have a: "a \<in> set (bikes app)" by (simp add: bs)
    show ?thesis
    proof (cases "c = b")
      case True
      from a fresh have "bike_id (bikeObj app a) \<noteq> Some newId" by blast
      with that(3) True False show ?thesis by (simp add: ids)
    next
      case c: False
      with that(2) have "c \<in> set (bikes app)" by (simp add: bs)
      with a that(3) False c show ?thesis by (simp add: ids uniq)
    qed
  qed
  ultimately show ?thesis
    unfolding bikeIdsUnique_def by blast
qed

lemma bikeIdsUnique_rentBike:
  "bikeIdsUnique app \<Longrightarrow> bikeIdsUnique (snd (rentBike app bikeId e now))"
proof (cases rule: rentBike_cases [of app bikeId e now])
  case unchanged
  assume "bikeIdsUnique app"
  with unchanged show ?thesis by simp
next
  case (rented b u)
  assume "bikeIdsUnique app"
  moreover have "bikeIdsUnique (snd (rentBike app bikeId e now)) = bikeIdsUnique app"
    by (rule bikeIdsUnique_same) (simp_all add: rented(3))
  ultimately show ?thesis by simp
qed

lemma bikeIdsUnique_returnBike:
  "bikeIdsUnique app \<Longrightarrow> bikeIdsUnique (snd (returnBike app bikeId e now))"
proof (cases rule: returnBike_cases [of app bikeId e now])
  case unchanged
  assume "bikeIdsUnique app"
  with unchanged show ?thesis by simp
next
  case (returned i)
  assume "bikeIdsUnique app"
  moreover have "bikeIdsUnique (snd (returnBike app bikeId e now)) = bikeIdsUnique app"
    by (rule bikeIdsUnique_same) (simp_all add: returned(3))
  ultimately show ?thesis by simp
qed

lemma bikeIdsUnique_moveBikeTo:
  "bikeIdsUnique app \<Longrightarrow> bikeIdsUnique (snd (moveBikeTo app bikeId loc))"
proof (cases "findBike app bikeId")
  case (Inl err)
  assume "bikeIdsUnique app"
  with Inl show ?thesis by (simp add: moveBikeTo_def)
next
  case (Inr b)
  assume "bikeIdsUnique app"
  moreover have "bikeIdsUnique (snd (moveBikeTo app bikeId loc)) = bikeIdsUnique app"
    by (rule bikeIdsUnique_same) (simp_all add: moveBikeTo_found [OF Inr])
  ultimately show ?thesis by simp
qed

lemma bikeIdsUnique_registerUser:
  "bikeIdsUnique app \<Longrightarrow> bikeIdsUnique (snd (registerUser app u newId encrypt))"
  by (simp add: bikeIdsUnique_def registerUser_def Let_def)

lemma bikeIdsUnique_removeUser:
  "bikeIdsUnique app \<Longrightarrow> bikeIdsUnique (snd (removeUser app e))"
  by (simp add: bikeIdsUnique_def removeUser_def Let_def split: option.splits)

lemma bikeIdsUnique_exec: "bikeIdsUnique app \<Longrightarrow> freshIds app c \<Longrightarrow> bikeIdsUnique (exec app c)"
  by (cases c)
    (simp_all add: bikeIdsUnique_registerUser bikeIdsUnique_registerBike bikeIdsUnique_removeUser
      bikeIdsUnique_rentBike bikeIdsUnique_returnBike bikeIdsUnique_moveBikeTo)

lemma reachable_bikeIdsUnique: "reachable freshIds app \<Longrightarrow> bikeIdsUnique app"
proof (induction rule: reachable.induct)
  case (empty app)
  then show ?case by (simp add: bikeIdsUnique_def)
next
  case (step app c)
  then show ?case by (simp add: bikeIdsUnique_exec)
qed

lemma emailsUnique_registerUser:
  assumes "emailsUnique app"
  shows "emailsUnique (snd (registerUser app u newId encrypt))"
proof (cases "\<exists>r\<in>set (users app). email (userObj app r) = email (userObj app u)")
  case True
  with assms show ?thesis by (simp add: registerUser_def)
next
  case False
  let ?app' = "snd (registerUser app u newId encrypt)"
  have same: "email (userObj ?app' r) = email (userObj app r)" for r
    using False by (simp add: registerUser_def Let_def)
  have "users ?app' = users app @ [u]"
    using False by (simp add: registerUser_def Let_def)
  then have "map (\<lambda>r. email (userObj ?app' r)) (users ?app') =
      map (\<lambda>r. email (userObj app r)) (users app) @ [email (userObj app u)]"
    by (simp add: same)
  with assms False show ?thesis
    by (auto simp: emailsUnique_def)
qed

lemma distinct_map_splice1:
  "distinct (map f xs) \<Longrightarrow> distinct (map f (splice1 i xs))"
proof (induction xs arbitrary: i)
  case Nil
  then show ?case by (simp add: splice1_def)
next
  case (Cons x xs)
  show ?case
  proof (cases i)
    case 0
    with Cons.prems show ?thesis by (simp add: splice1_def)
  next
    case (Suc k)
    have "set (splice1 k xs) \<subseteq> set xs"
      by (auto simp: splice1_def dest: in_set_takeD in_set_dropD)
    with Cons.prems Cons.IH [of k] Suc show ?thesis
      by (auto simp: splice1_def)
  qed
qed

lemma emailsUnique_removeUser:
  "emailsUnique app \<Longrightarrow> emailsUnique (snd (removeUser app e))"
  by (simp add: emailsUnique_def removeUser_def Let_def distinct_map_splice1 split: option.splits)

lemma emailsUnique_exec: "emailsUnique app \<Longrightarrow> emailsUnique (exec app c)"
proof (cases c)
  case (RentBike bikeId e now)
  assume "emailsUnique app"
  then show ?thesis
    by (cases rule: rentBike_cases [of app bikeId e now]) (simp_all add: RentBike emailsUnique_def)
next
  case (ReturnBike bikeId e now)
  assume "emailsUnique app"
  then show ?thesis
    by (cases rule: returnBike_cases [of app bikeId e now])
      (simp_all add: ReturnBike emailsUnique_def)
qed (simp_all add: emailsUnique_registerUser emailsUnique_removeUser,
    simp_all add: emailsUnique_def registerBike_def moveBikeTo_def Let_def split: sum.splits)

lemma reachable_emailsUnique: "reachable ok app \<Longrightarrow> emailsUnique app"
proof (induction rule: reachable.induct)
  case (empty app)
  then show ?case by (simp add: emailsUnique_def)
next
  case (step app c)
  then show ?case by (simp add: emailsUnique_exec)
qed

section \<open>Renting an unavailable bike\<close>

text \<open>
  C6. When \<open>registerBike\<close> registers an available bike under a fresh identifier and
  \<open>rentBike\<close> is then called with that identifier and the email of an existing user,
  the rent succeeds and the availability flag of that bike is false; from then on every
  \<open>rentBike\<close> on that identifier fails with \<open>UnavailableBike\<close>, whatever the email
  and the time. And in every state reachable with fresh identifiers, for every bike of
  the collection whose availability flag is false, every \<open>rentBike\<close> on that bike's
  identifier fails with \<open>UnavailableBike\<close> and changes nothing, whatever the email
  (also one that no user has).
\<close>

theorem C6_rent_then_unavailable:
  "((\<forall>a\<in>set (bikes app). bike_id (bikeObj app a) \<noteq> Some newId) \<and>
    available (bikeObj app b) \<and>
    (\<exists>u\<in>set (users app). email (userObj app u) = userEmail) \<longrightarrow>
      fst (registerBike app b newId) = newId \<and>
      (let app1 = snd (registerBike app b newId);
           app2 = snd (rentBike app1 newId userEmail now) in
         fst (rentBike app1 newId userEmail now) = Inr () \<and>
         \<not> available (bikeObj app2 b) \<and>
         (\<forall>e t. rentBike app2 newId e t = (Inl UnavailableBike, app2)))) \<and>
   (reachable freshIds app \<longrightarrow>
      (\<forall>a\<in>set (bikes app). \<not> available (bikeObj app a) \<longrightarrow>
         (\<exists>i. bike_id (bikeObj app a) = Some i \<and>
            (\<forall>e t. rentBike app i e t = (Inl UnavailableBike, app)))))"
proof (intro conjI impI)
  assume asm: "(\<forall>a\<in>set (bikes app). bike_id (bikeObj app a) \<noteq> Some newId) \<and>
    available (bikeObj app b) \<and>
    (\<exists>u\<in>set (users app). email (userObj app u) = userEmail)"
  show "fst (registerBike app b newId) = newId"
    by (simp add: registerBike_def Let_def)
  let ?app1 = "snd (registerBike app b newId)"
  let ?app2 = "snd (rentBike ?app1 newId userEmail now)"
  from asm have found: "findBike ?app1 newId = Inr b"
    by (simp add: findBike_registerBike)
  from asm have avail: "available (bikeObj ?app1 b)"
    by (simp add: registerBike_def Let_def)
  from asm have "\<exists>u\<in>set (users ?app1). email (userObj ?app1 u) = userEmail"
    by (simp add: registerBike_def Let_def)
  from find_present [OF this]
  obtain u where u: "findUser ?app1 userEmail = Inr u"
    by (auto simp: findUser_def)
  have app2: "rentBike ?app1 newId userEmail now =
      (Inr (), ?app1\<lparr>bikeObj := (bikeObj ?app1)(b := (bikeObj ?app1 b)\<lparr>available := False\<rparr>),
                    rents := rents ?app1 @ [\<lparr>bike = b, user = u, start = now, end_date = None\<rparr>]\<rparr>)"
    using found avail u by (simp add: rentBike_def Let_def)
  have ok: "fst (rentBike ?app1 newId userEmail now) = Inr ()"
    by (simp add: app2)
  have off: "\<not> available (bikeObj ?app2 b)"
    by (simp add: app2)
  from found have "find (\<lambda>a. bike_id (bikeObj ?app1 a) = Some newId) (bikes ?app1) = Some b"
    by (simp add: findBike_def split: option.splits)
  moreover have "(\<lambda>a. bike_id (bikeObj ?app2 a) = Some newId) =
      (\<lambda>a. bike_id (bikeObj ?app1 a) = Some newId)"
    by (auto simp: app2)
  moreover have "bikes ?app2 = bikes ?app1"
    by (simp add: app2)
  ultimately have "findBike ?app2 newId = Inr b"
    by (simp add: findBike_def)
  with off have "\<forall>e t. rentBike ?app2 newId e t = (Inl UnavailableBike, ?app2)"
    by (simp add: rentBike_unavailable)
  with ok off show "let app1 = snd (registerBike app b newId);
           app2 = snd (rentBike app1 newId userEmail now) in
         fst (rentBike app1 newId userEmail now) = Inr () \<and>
         \<not> available (bikeObj app2 b) \<and>
         (\<forall>e t. rentBike app2 newId e t = (Inl UnavailableBike, app2))"
    by (simp add: Let_def)
next
  assume "reachable freshIds app"
  then have unique: "bikeIdsUnique app"
    by (rule reachable_bikeIdsUnique)
  show "\<forall>a\<in>set (bikes app). \<not> available (bikeObj app a) \<longrightarrow>
         (\<exists>i. bike_id (bikeObj app a) = Some i \<and>
            (\<forall>e t. rentBike app i e t = (Inl UnavailableBike, app)))"
  proof (intro ballI impI)
    fix a
    assume a: "a \<in> set (bikes app)" "\<not> available (bikeObj app a)"
    with unique obtain i where i: "bike_id (bikeObj app a) = Some i"
      by (auto simp: bikeIdsUnique_def)
    from findBike_unique [OF unique a(1) i] a(2)
    have "\<forall>e t. rentBike app i e t = (Inl UnavailableBike, app)"
      by (simp add: rentBike_unavailable)
    with i show "\<exists>i. bike_id (bikeObj app a) = Some i \<and>
            (\<forall>e t. rentBike app i e t = (Inl UnavailableBike, app))"
      by blast
  qed
qed

text \<open>
  Bob rents bike-2 in the registry with two bikes; bike-1, rented by Ana, is refused to
  Carl, who is not registered.
\<close>

theorem C6_rent_then_unavailable_witness:
  "fst (rentBike demoRegistered ''bike-2'' ''bob@example.com'' 5) = Inr () \<and>
   \<not> available (bikeObj (snd (rentBike demoRegistered ''bike-2'' ''bob@example.com'' 5)) 2) \<and>
   reachable freshIds demoRented \<and>
   bike_id (bikeObj demoRented 0) = Some ''bike-1'' \<and>
   \<not> available (bikeObj demoRented 0) \<and>
   rentBike demoRented ''bike-1'' ''carl@example.com'' 9 = (Inl UnavailableBike, demoRented)"
proof -
  let ?app = "exec (exec (exec emptyApp
       (RegisterUser 0 ''user-1'' demoEncrypt))
       (RegisterUser 1 ''user-2'' demoEncrypt))
       (RegisterBike 0 ''bike-1'')"
  have reg: "demoRegistered = snd (registerBike ?app 2 ''bike-2'')"
    by (simp add: demoRegistered_def)
  have pre: "(\<forall>a\<in>set (bikes ?app). bike_id (bikeObj ?app a) \<noteq> Some ''bike-2'') \<and>
    available (bikeObj ?app 2) \<and>
    (\<exists>u\<in>set (users ?app). email (userObj ?app u) = ''bob@example.com'')"
    by (simp add: registerUser_def registerBike_def Let_def emptyApp_def demoBikes_def demoUsers_def)
  from C6_rent_then_unavailable [of ?app "''bike-2''" 2 "''bob@example.com''" 5] pre
  have first: "fst (rentBike demoRegistered ''bike-2'' ''bob@example.com'' 5) = Inr ()"
    "\<not> available (bikeObj (snd (rentBike demoRegistered ''bike-2'' ''bob@example.com'' 5)) 2)"
    unfolding reg Let_def by blast+
  have start: "users emptyApp = []" "bikes emptyApp = []" "rents emptyApp = []"
    by (simp_all add: emptyApp_def)
  have reach: "reachable freshIds demoRented"
    unfolding demoRented_def demoRegistered_def
    by (intro reachable.step reachable.empty start)
      (simp_all add: registerUser_def registerBike_def Let_def emptyApp_def demoBikes_def)
  have bike: "0 \<in> set (bikes demoRented)" "\<not> available (bikeObj demoRented 0)"
    "bike_id (bikeObj demoRented 0) = Some ''bike-1''"
    by (simp_all add: demoRented_fields demoRegistered_fields)
  from C6_rent_then_unavailable [of demoRented] reach bike
  have "rentBike demoRented ''bike-1'' ''carl@example.com'' 9 = (Inl UnavailableBike, demoRented)"
    by fastforce
  with first reach bike show ?thesis
    by simp
qed

end
